theory Spec2Isabelle
  imports Complex_Main "HOL-Library.Monad_Syntax"
begin

section \<open>Numbers and strings of the host language\<close>

text \<open>
  The program is TypeScript. Its numbers are modelled as exact reals (no rounding, no NaN,
  no infinities); where the source can produce NaN (parsing a malformed cell id) the
  model returns \<open>None\<close>. Its strings are lists of characters.
\<close>

definition digitChar :: "nat \<Rightarrow> char" where
  "digitChar d = char_of (48 + d)"

definition isDigit :: "char \<Rightarrow> bool" where
  "isDigit c = (48 \<le> (of_char c :: nat) \<and> (of_char c :: nat) \<le> 57)"

definition digitVal :: "char \<Rightarrow> nat" where
  "digitVal c = of_char c - 48"

text \<open>Decimal digits of a natural number, most significant first.\<close>

function natDigits :: "nat \<Rightarrow> string" where
  "natDigits n = (if n < 10 then [digitChar n]
                  else natDigits (n div 10) @ [digitChar (n mod 10)])"
  by pat_completeness auto
termination
  by (relation "measure (\<lambda>n. n)") auto

declare natDigits.simps [simp del]

text \<open>
  The template literal \<^verbatim>\<open>`${xIndex}`\<close> applied to an integral number: the plain
  decimal form, with a leading minus sign below zero. (JavaScript switches to exponent
  notation from \<open>10^21\<close> on; every index computed from a latitude and longitude on
  Earth is below \<open>10^7\<close> in absolute value.)
\<close>

definition numberToString :: "int \<Rightarrow> string" where
  "numberToString i = (if i < 0 then CHR ''-'' # natDigits (nat (- i)) else natDigits (nat i))"

text \<open>\<^verbatim>\<open>String.prototype.split\<close> with a one-character separator.\<close>

fun split :: "char \<Rightarrow> string \<Rightarrow> string list" where
  "split sep [] = [[]]"
| "split sep (c # cs) =
     (if c = sep then [] # split sep cs
      else (case split sep cs of
              [] \<Rightarrow> [[c]]
            | p # ps \<Rightarrow> (c # p) # ps))"

definition isWhiteSpace :: "char \<Rightarrow> bool" where
  "isWhiteSpace c = ((of_char c :: nat) \<in> {9, 10, 11, 12, 13, 32})"

definition digitsValue :: "string \<Rightarrow> nat" where
  "digitsValue ds = foldl (\<lambda>acc c. 10 * acc + digitVal c) 0 ds"

text \<open>
  \<^verbatim>\<open>parseInt(s, 10)\<close>: leading white space is skipped, one sign is accepted, then the
  longest prefix of decimal digits is read; with no digit the result is NaN, here \<open>None\<close>.
\<close>

definition parseInt :: "string \<Rightarrow> int option" where
  "parseInt s =
     (let t = dropWhile isWhiteSpace s;
          neg = (t \<noteq> [] \<and> hd t = CHR ''-'');
          u = (if t \<noteq> [] \<and> (hd t = CHR ''-'' \<or> hd t = CHR ''+'') then tl t else t);
          ds = takeWhile isDigit u
      in if ds = [] then None
         else Some (if neg then - int (digitsValue ds) else int (digitsValue ds)))"

text \<open>
  Array destructuring \<^verbatim>\<open>const [xStr, yStr] = parts\<close> followed by \<^verbatim>\<open>parseInt\<close>:
  a missing component is \<^verbatim>\<open>undefined\<close>, which parses to NaN.
\<close>

definition parseComponent :: "string list \<Rightarrow> nat \<Rightarrow> int option" where
  "parseComponent parts i = (if i < length parts then parseInt (parts ! i) else None)"

text \<open>
  A thrown value: an \<^verbatim>\<open>Error\<close> object with its message (which may be missing), or
  \<^verbatim>\<open>undefined\<close>, which is what a variable that was never assigned holds.
\<close>

datatype thrown = Undefined | Error (message: "string option")

fun startsWith :: "string \<Rightarrow> string \<Rightarrow> bool" where
  "startsWith s [] = True"
| "startsWith [] (p # ps) = False"
| "startsWith (c # cs) (p # ps) = (c = p \<and> startsWith cs ps)"

text \<open>\<^verbatim>\<open>String.prototype.includes\<close>.\<close>

fun strIncludes :: "string \<Rightarrow> string \<Rightarrow> bool" where
  "strIncludes [] sub = (sub = [])"
| "strIncludes (c # cs) sub = (startsWith (c # cs) sub \<or> strIncludes cs sub)"

text \<open>\<^verbatim>\<open>error.message?.includes(sub)\<close>: false when there is no message.\<close>

definition messageIncludes :: "thrown \<Rightarrow> string \<Rightarrow> bool" where
  "messageIncludes err sub =
     (case err of
        Error (Some m) \<Rightarrow> strIncludes m sub
      | _ \<Rightarrow> False)"

text \<open>\<^verbatim>\<open>Math.round\<close>: the nearest integer, a tie going up.\<close>

definition mathRound :: "real \<Rightarrow> int" where
  "mathRound x = \<lfloor>x + 1 / 2\<rfloor>"

text \<open>
  \<^verbatim>\<open>[...new Set(xs)]\<close>: the elements of \<open>xs\<close> without repetition, each at the place of
  its first occurrence.
\<close>

definition spreadNewSet :: "'a list \<Rightarrow> 'a list" where
  "spreadNewSet xs = foldl (\<lambda>acc x. if x \<in> set acc then acc else acc @ [x]) [] xs"

section \<open>domain/geo/grid.ts\<close>

record LatLng =
  lat :: real
  lng :: real

type_synonym CellId = string

definition CELL_SIZE_METERS :: real where
  "CELL_SIZE_METERS = 50"

definition ORIGIN :: LatLng where
  "ORIGIN = \<lparr> lat = 45.75372, lng = 21.22571 \<rparr>"

definition METERS_PER_DEG_LAT :: real where
  "METERS_PER_DEG_LAT = 111320"

definition metersPerDegLng :: "real \<Rightarrow> real" where
  "metersPerDegLng la = 111320 * cos ((la * pi) / 180)"

definition latLngToCell :: "LatLng \<Rightarrow> CellId" where
  "latLngToCell location =
     (let dLat = lat location - lat ORIGIN;
          dLng = lng location - lng ORIGIN;
          mPerDegLng = metersPerDegLng (lat ORIGIN);
          xMeters = dLng * mPerDegLng;
          yMeters = dLat * METERS_PER_DEG_LAT;
          xIndex = \<lfloor>xMeters / CELL_SIZE_METERS\<rfloor>;
          yIndex = \<lfloor>yMeters / CELL_SIZE_METERS\<rfloor>
      in numberToString xIndex @ ''_'' @ numberToString yIndex)"

definition metersToLatLng :: "real \<Rightarrow> real \<Rightarrow> LatLng" where
  "metersToLatLng xMeters yMeters =
     (let dLat = yMeters / METERS_PER_DEG_LAT;
          mPerDegLng = metersPerDegLng (lat ORIGIN);
          dLng = xMeters / mPerDegLng
      in \<lparr> lat = lat ORIGIN + dLat, lng = lng ORIGIN + dLng \<rparr>)"

text \<open>
  \<open>cellCenter\<close> and \<open>cellToPolygon\<close> return \<open>None\<close> where the source returns
  coordinates with a NaN component, that is when an index of the id does not parse.
\<close>

definition cellCenter :: "CellId \<Rightarrow> LatLng option" where
  "cellCenter cellId =
     (let parts = split CHR ''_'' cellId in
      case (parseComponent parts 0, parseComponent parts 1) of
        (Some xIndex, Some yIndex) \<Rightarrow>
          (let xCenterMeters = (real_of_int xIndex + 0.5) * CELL_SIZE_METERS;
               yCenterMeters = (real_of_int yIndex + 0.5) * CELL_SIZE_METERS
           in Some (metersToLatLng xCenterMeters yCenterMeters))
      | _ \<Rightarrow> None)"

definition cellToPolygon :: "CellId \<Rightarrow> LatLng list option" where
  "cellToPolygon cellId =
     (let parts = split CHR ''_'' cellId in
      case (parseComponent parts 0, parseComponent parts 1) of
        (Some xIndex, Some yIndex) \<Rightarrow>
          (let half = CELL_SIZE_METERS / 2;
               xCenter = (real_of_int xIndex + 0.5) * CELL_SIZE_METERS;
               yCenter = (real_of_int yIndex + 0.5) * CELL_SIZE_METERS;
               cornersMeters = [(xCenter - half, yCenter + half),
                                (xCenter + half, yCenter + half),
                                (xCenter + half, yCenter - half),
                                (xCenter - half, yCenter - half)]
           in Some (map (\<lambda>(x, y). metersToLatLng x y) cornersMeters))
      | _ \<Rightarrow> None)"

section \<open>domain/geo/distance.ts\<close>

definition EARTH_RADIUS_METERS :: real where
  "EARTH_RADIUS_METERS = 6371000"

definition toRad :: "real \<Rightarrow> real" where
  "toRad deg = (deg * pi) / 180"

text \<open>
  \<^verbatim>\<open>Math.atan2(y, x)\<close> on finite arguments: the angle of the point \<open>(x, y)\<close>, in
  \<open>(-\<pi>, \<pi>]\<close>.
\<close>

definition atan2 :: "real \<Rightarrow> real \<Rightarrow> real" where
  "atan2 y x =
     (if 0 < x then arctan (y / x)
      else if x < 0 then (if 0 \<le> y then arctan (y / x) + pi else arctan (y / x) - pi)
      else if 0 < y then pi / 2
      else if y < 0 then - (pi / 2)
      else 0)"

definition haversineDistance :: "LatLng \<Rightarrow> LatLng \<Rightarrow> real" where
  "haversineDistance a b =
     (let dLat = toRad (lat b - lat a);
          dLng = toRad (lng b - lng a);
          lat1 = toRad (lat a);
          lat2 = toRad (lat b);
          sinDLat = sin (dLat / 2);
          sinDLng = sin (dLng / 2);
          h = sinDLat * sinDLat + cos lat1 * cos lat2 * sinDLng * sinDLng;
          c = 2 * atan2 (sqrt h) (sqrt (1 - h))
      in EARTH_RADIUS_METERS * c)"

section \<open>domain/tracking/tracker.ts\<close>

record TrackingState =
  lastLocation :: "LatLng option"
  totalDistanceMeters :: real
  points :: real
  visitedCells :: "CellId set"

definition createInitialTrackingState :: TrackingState where
  "createInitialTrackingState =
     \<lparr> lastLocation = None, totalDistanceMeters = 0, points = 0, visitedCells = {} \<rparr>"

record LocationUpdateResult =
  state :: TrackingState
  gainedDistance :: real
  gainedPoints :: real
  newCellVisited :: bool
  lastCellId :: CellId

text \<open>
  The transition on values. Each \<open>let\<close> is one block of the source: the copy of the
  previous state, the distance block, the cell block, the final assignments.
\<close>

definition handleLocationUpdate :: "TrackingState \<Rightarrow> LatLng \<Rightarrow> LocationUpdateResult" where
  "handleLocationUpdate prevState newLocation =
     (let st0 = prevState;
          (st1, gainedDistance1, gainedPoints1) =
            (case lastLocation st0 of
               None \<Rightarrow> (st0, 0, 0)
             | Some l \<Rightarrow>
                 (let dist = haversineDistance l newLocation in
                  if dist > 3
                  then (st0\<lparr> totalDistanceMeters := totalDistanceMeters st0 + dist \<rparr>,
                        dist, 0 + dist * 0.1)
                  else (st0, 0, 0)));
          cellId = latLngToCell newLocation;
          alreadyHad = (cellId \<in> visitedCells st1);
          (st2, newCellVisited2, gainedPoints2) =
            (if \<not> alreadyHad
             then (st1\<lparr> visitedCells := insert cellId (visitedCells st1) \<rparr>,
                   True, gainedPoints1 + 50)
             else (st1, False, gainedPoints1));
          st3 = st2\<lparr> lastLocation := Some newLocation, points := points st2 + gainedPoints2 \<rparr>
      in \<lparr> state = st3, gainedDistance = gainedDistance1, gainedPoints = gainedPoints2,
           newCellVisited = newCellVisited2, lastCellId = cellId \<rparr>)"

subsection \<open>The same transition on a store of objects\<close>

text \<open>
  A \<open>TrackingState\<close> is an object, and its \<open>visitedCells\<close> field holds a reference to a
  \<open>Set\<close> object. To speak about what the function does to the object it is given, the
  objects live in a store: state objects and set objects by address, with a counter for
  the next fresh address. A \<open>LatLng\<close> is never written to, so it stays a value.
\<close>

type_synonym addr = nat

record StateObj =
  oLastLocation :: "LatLng option"
  oTotalDistanceMeters :: real
  oPoints :: real
  oVisitedCells :: addr

record heap =
  stateObjs :: "addr \<rightharpoonup> StateObj"
  setObjs :: "addr \<rightharpoonup> CellId set"
  nextAddr :: addr

record ResultObj =
  rState :: addr
  rGainedDistance :: real
  rGainedPoints :: real
  rNewCellVisited :: bool
  rLastCellId :: CellId

definition allocSet :: "CellId set \<Rightarrow> heap \<Rightarrow> addr \<times> heap" where
  "allocSet contents h =
     (nextAddr h, h\<lparr> setObjs := (setObjs h)(nextAddr h \<mapsto> contents), nextAddr := Suc (nextAddr h) \<rparr>)"

definition allocState :: "StateObj \<Rightarrow> heap \<Rightarrow> addr \<times> heap" where
  "allocState obj h =
     (nextAddr h, h\<lparr> stateObjs := (stateObjs h)(nextAddr h \<mapsto> obj), nextAddr := Suc (nextAddr h) \<rparr>)"

definition writeState :: "addr \<Rightarrow> (StateObj \<Rightarrow> StateObj) \<Rightarrow> heap \<Rightarrow> heap option" where
  "writeState r f h =
     (case stateObjs h r of
        None \<Rightarrow> None
      | Some obj \<Rightarrow> Some (h\<lparr> stateObjs := (stateObjs h)(r \<mapsto> f obj) \<rparr>))"

definition setAdd :: "addr \<Rightarrow> CellId \<Rightarrow> heap \<Rightarrow> heap option" where
  "setAdd r x h =
     (case setObjs h r of
        None \<Rightarrow> None
      | Some contents \<Rightarrow> Some (h\<lparr> setObjs := (setObjs h)(r \<mapsto> insert x contents) \<rparr>))"

text \<open>
  \<open>None\<close> stands for a dangling reference, which the typed source cannot be given.
  Every read and write goes through the store, in the order of the source.
\<close>

definition handleLocationUpdateH :: "heap \<Rightarrow> addr \<Rightarrow> LatLng \<Rightarrow> (heap \<times> ResultObj) option" where
  "handleLocationUpdateH h prevState newLocation =
     do {
       prev \<leftarrow> stateObjs h prevState;
       prevCells \<leftarrow> setObjs h (oVisitedCells prev);
       let (cellsRef, h1) = allocSet prevCells h;
       let (stRef, h2) = allocState (prev\<lparr> oVisitedCells := cellsRef \<rparr>) h1;
       cur \<leftarrow> stateObjs h2 stRef;
       (h3, gainedDistance1, gainedPoints1) \<leftarrow>
         (case oLastLocation cur of
            None \<Rightarrow> Some (h2, 0, 0)
          | Some l \<Rightarrow>
              (let dist = haversineDistance l newLocation in
               if dist > 3
               then do {
                      h' \<leftarrow> writeState stRef
                              (\<lambda>obj. obj\<lparr> oTotalDistanceMeters := oTotalDistanceMeters obj + dist \<rparr>) h2;
                      Some (h', dist, 0 + dist * 0.1)
                    }
               else Some (h2, 0, 0)));
       let cellId = latLngToCell newLocation;
       cur3 \<leftarrow> stateObjs h3 stRef;
       cells3 \<leftarrow> setObjs h3 (oVisitedCells cur3);
       let alreadyHad = (cellId \<in> cells3);
       (h4, newCellVisited2, gainedPoints2) \<leftarrow>
         (if \<not> alreadyHad
          then do {
                 h' \<leftarrow> setAdd (oVisitedCells cur3) cellId h3;
                 Some (h', True, gainedPoints1 + 50)
               }
          else Some (h3, False, gainedPoints1));
       h5 \<leftarrow> writeState stRef (\<lambda>obj. obj\<lparr> oLastLocation := Some newLocation \<rparr>) h4;
       h6 \<leftarrow> writeState stRef (\<lambda>obj. obj\<lparr> oPoints := oPoints obj + gainedPoints2 \<rparr>) h5;
       Some (h6, \<lparr> rState = stRef, rGainedDistance = gainedDistance1,
                   rGainedPoints = gainedPoints2, rNewCellVisited = newCellVisited2,
                   rLastCellId = cellId \<rparr>)
     }"

text \<open>Reading a state object, with its set, back as a value.\<close>

definition readState :: "heap \<Rightarrow> addr \<Rightarrow> TrackingState option" where
  "readState h r =
     do {
       obj \<leftarrow> stateObjs h r;
       cells \<leftarrow> setObjs h (oVisitedCells obj);
       Some \<lparr> lastLocation = oLastLocation obj, totalDistanceMeters = oTotalDistanceMeters obj,
              points = oPoints obj, visitedCells = cells \<rparr>
     }"

section \<open>The Firestore documents the client reads and writes\<close>

text \<open>
  The store is an external service. Its documented field transforms are modelled on a
  client document whose fields may be absent: \<^verbatim>\<open>arrayUnion\<close> appends the elements that
  are not yet in the array, \<^verbatim>\<open>increment\<close> adds to a number (and sets the operand when
  the field holds none). \<^verbatim>\<open>updateDoc\<close> fails on a missing document, \<^verbatim>\<open>setDoc\<close> with
  \<^verbatim>\<open>{merge: true}\<close> creates it. Any request fails while the store is unreachable.
\<close>

record ClientDoc =
  imageQuestSolvedIds :: "string list option"
  accumulatedScore :: "real option"
  mapGridIds :: "CellId list option"

record QuestDoc =
  docId :: string
  dIsActive :: "bool option"
  dOrgId :: string
  dDescription :: string
  dLatitude :: real
  dLongitude :: real
  dReferenceImageUrl :: "string option"
  dImageUrl :: "string option"
  dScore :: "real option"
  dQuestRadius :: "real option"

record Firestore =
  clients :: "string \<rightharpoonup> ClientDoc"
  imageQuests :: "QuestDoc list"
  reachable :: bool

definition emptyClientDoc :: ClientDoc where
  "emptyClientDoc = \<lparr> imageQuestSolvedIds = None, accumulatedScore = None, mapGridIds = None \<rparr>"

definition arrayUnion :: "'a list option \<Rightarrow> 'a list \<Rightarrow> 'a list" where
  "arrayUnion old new =
     foldl (\<lambda>acc x. if x \<in> set acc then acc else acc @ [x])
       (case old of None \<Rightarrow> [] | Some xs \<Rightarrow> xs) new"

definition increment :: "real option \<Rightarrow> real \<Rightarrow> real" where
  "increment old n = (case old of None \<Rightarrow> n | Some v \<Rightarrow> v + n)"

definition unavailable :: thrown where
  "unavailable = Error (Some ''unavailable'')"

definition getDoc :: "Firestore \<Rightarrow> string \<Rightarrow> thrown + ClientDoc option" where
  "getDoc db clientId = (if reachable db then Inr (clients db clientId) else Inl unavailable)"

section \<open>domain/tracking/sync.ts and utils/tracking/TrackingContext.tsx\<close>

text \<open>The object handed to \<^verbatim>\<open>setDoc\<close>: each key is present only when the source sets it.\<close>

record SyncData =
  sAccumulatedScore :: "int option"
  sMapGridIds :: "CellId list option"

text \<open>
  The provider's refs and state, the store, and two logs: the requests handed to
  \<^verbatim>\<open>setDoc\<close>, and the errors the \<^verbatim>\<open>.catch\<close> handlers report.
\<close>

record Provider =
  trackingState :: TrackingState
  visitedCellsLocations :: "LatLng option list"
  clientIdRef :: "string option"
  pendingCellsRef :: "CellId list"
  pendingPointsRef :: real
  firestore :: Firestore
  setDocCalls :: "(string \<times> SyncData) list"
  caughtErrors :: "thrown list"

text \<open>
  \<^verbatim>\<open>setDoc\<close> is a parameter: it is run on the provider as it is at the moment of the
  call, and answers with the error it rejects with, if any, and the store afterwards.
  The store has no access to the provider's refs, so it cannot change them. The call is
  taken to settle before the next event is handled; the source does not wait for it, and
  nothing it does afterwards depends on the answer except the report of an error.
\<close>

type_synonym SetDoc = "string \<Rightarrow> SyncData \<Rightarrow> Provider \<Rightarrow> thrown option \<times> Firestore"

definition syncBatchToFirebase ::
  "SetDoc \<Rightarrow> string \<Rightarrow> CellId list \<Rightarrow> real \<Rightarrow> Provider \<Rightarrow> thrown option \<times> Provider" where
  "syncBatchToFirebase setDoc clientId cellIds gainedPts w =
     (if clientId = [] then (None, w)
      else if length cellIds = 0 \<and> gainedPts \<le> 0 then (None, w)
      else
        (let roundedPoints = mathRound gainedPts;
             data = \<lparr> sAccumulatedScore = (if roundedPoints \<noteq> 0 then Some roundedPoints else None),
                      sMapGridIds = (if length cellIds > 0 then Some cellIds else None) \<rparr>;
             w1 = w\<lparr> setDocCalls := setDocCalls w @ [(clientId, data)] \<rparr>;
             (err, db) = setDoc clientId data w1
         in (err, w1\<lparr> firestore := db \<rparr>)))"

text \<open>The \<^verbatim>\<open>.catch\<close> handler only reports the error.\<close>

definition catchSync :: "thrown option \<times> Provider \<Rightarrow> Provider" where
  "catchSync r =
     (case r of
        (None, w) \<Rightarrow> w
      | (Some err, w) \<Rightarrow> w\<lparr> caughtErrors := caughtErrors w @ [err] \<rparr>)"

definition flushBuffer :: "SetDoc \<Rightarrow> Provider \<Rightarrow> Provider" where
  "flushBuffer setDoc w =
     (if length (pendingCellsRef w) = 0 \<and> pendingPointsRef w = 0 then w
      else
        (case clientIdRef w of
           None \<Rightarrow> w
         | Some clientId \<Rightarrow>
             if clientId = [] then w
             else
               (let cellsToSync = spreadNewSet (pendingCellsRef w);
                    pointsToSync = pendingPointsRef w;
                    w1 = w\<lparr> pendingCellsRef := [], pendingPointsRef := 0 \<rparr>
                in catchSync (syncBatchToFirebase setDoc clientId cellsToSync pointsToSync w1))))"

text \<open>
  \<open>onLocationUpdate\<close> in its three blocks: the result of the transition is entered into
  the list of centres and the pending buffer; the size of the buffer is checked and the
  buffer flushed; the new tracking state is stored.
\<close>

definition bufferResult :: "Provider \<Rightarrow> LocationUpdateResult \<Rightarrow> Provider" where
  "bufferResult w result =
     (let w1 = (if newCellVisited result
                then
                  (let center = cellCenter (lastCellId result);
                       wa = (if center \<noteq> None \<and> center \<in> set (visitedCellsLocations w)
                             then w
                             else w\<lparr> visitedCellsLocations := visitedCellsLocations w @ [center] \<rparr>)
                   in if lastCellId result \<notin> set (pendingCellsRef wa)
                      then wa\<lparr> pendingCellsRef := pendingCellsRef wa @ [lastCellId result] \<rparr>
                      else wa)
                else w)
      in w1\<lparr> pendingPointsRef := pendingPointsRef w1 + gainedPoints result \<rparr>)"

definition autoFlush :: "SetDoc \<Rightarrow> Provider \<Rightarrow> Provider" where
  "autoFlush setDoc w =
     (if length (pendingCellsRef w) \<ge> 10
      then
        (case clientIdRef w of
           None \<Rightarrow> w
         | Some clientId \<Rightarrow>
             if clientId = [] then w
             else
               (let cellsToSync = spreadNewSet (pendingCellsRef w);
                    pointsToSync = pendingPointsRef w;
                    w1 = w\<lparr> pendingCellsRef := [], pendingPointsRef := 0 \<rparr>
                in catchSync (syncBatchToFirebase setDoc clientId cellsToSync pointsToSync w1)))
      else w)"

definition onLocationUpdate :: "SetDoc \<Rightarrow> Provider \<Rightarrow> LatLng \<Rightarrow> Provider" where
  "onLocationUpdate setDoc w newLoc =
     (let result = handleLocationUpdate (trackingState w) newLoc;
          w2 = bufferResult w result;
          w3 = autoFlush setDoc w2
      in w3\<lparr> trackingState := state result \<rparr>)"

text \<open>A run of location updates with no other event in between.\<close>

definition onLocationUpdates :: "SetDoc \<Rightarrow> Provider \<Rightarrow> LatLng list \<Rightarrow> Provider" where
  "onLocationUpdates setDoc w locs = foldl (onLocationUpdate setDoc) w locs"

text \<open>
  The store's \<^verbatim>\<open>setDoc(ref, data, {merge: true})\<close> on the \<open>clients\<close> collection.
\<close>

definition mergeSyncData :: "SyncData \<Rightarrow> ClientDoc \<Rightarrow> ClientDoc" where
  "mergeSyncData data d =
     (let d1 = (case sAccumulatedScore data of
                  None \<Rightarrow> d
                | Some n \<Rightarrow> d\<lparr> accumulatedScore := Some (increment (accumulatedScore d) (real_of_int n)) \<rparr>)
      in case sMapGridIds data of
           None \<Rightarrow> d1
         | Some ids \<Rightarrow> d1\<lparr> mapGridIds := Some (arrayUnion (mapGridIds d1) ids) \<rparr>)"

definition firestoreSetDoc :: SetDoc where
  "firestoreSetDoc clientId data w =
     (let db = firestore w in
      if \<not> reachable db then (Some unavailable, db)
      else
        (let old = (case clients db clientId of None \<Rightarrow> emptyClientDoc | Some d \<Rightarrow> d)
         in (None, db\<lparr> clients := (clients db)(clientId \<mapsto> mergeSyncData data old) \<rparr>)))"

section \<open>utils/gemini.ts: the rate limiter and the retry wrapper\<close>

text \<open>
  The module's clock and the global \<open>lastApiCallTime\<close>, in milliseconds, with what a test
  double would record: how often the wrapped function was invoked, and the delays handed
  to \<^verbatim>\<open>setTimeout\<close> by the rate limiter and by the retry wrapper. A timer is taken to
  fire exactly when it is due, and the wrapped call to take no time.
\<close>

record RetryState =
  now :: int
  lastApiCallTime :: int
  fnCalls :: nat
  rateLimitWaits :: "int list"
  backoffDelays :: "int list"

definition MIN_DELAY_BETWEEN_CALLS_MS :: int where
  "MIN_DELAY_BETWEEN_CALLS_MS = 4000"

definition waitForRateLimit :: "RetryState \<Rightarrow> RetryState" where
  "waitForRateLimit st =
     (let timeSinceLastCall = now st - lastApiCallTime st;
          st1 = (if timeSinceLastCall < MIN_DELAY_BETWEEN_CALLS_MS
                 then (let waitTime = MIN_DELAY_BETWEEN_CALLS_MS - timeSinceLastCall
                       in st\<lparr> now := now st + waitTime,
                              rateLimitWaits := rateLimitWaits st @ [waitTime] \<rparr>)
                 else st)
      in st1\<lparr> lastApiCallTime := now st1 \<rparr>)"

definition backoff :: "int \<Rightarrow> RetryState \<Rightarrow> RetryState" where
  "backoff delay st = st\<lparr> now := now st + delay, backoffDelays := backoffDelays st @ [delay] \<rparr>"

text \<open>
  The \<^verbatim>\<open>for\<close> loop of \<open>retryWithBackoff\<close>, from the iteration \<open>attempt\<close> on. The wrapped
  function may depend on everything in the state (the time, the number of earlier calls).
\<close>

function retryLoop ::
  "(RetryState \<Rightarrow> thrown + 'a) \<Rightarrow> int \<Rightarrow> int \<Rightarrow> nat \<Rightarrow> thrown \<Rightarrow> RetryState
     \<Rightarrow> (thrown + 'a) \<times> RetryState" where
  "retryLoop fn maxRetries baseDelay attempt lastError st =
     (if int attempt < maxRetries
      then
        (let st1 = waitForRateLimit st;
             r = fn st1;
             st2 = st1\<lparr> fnCalls := Suc (fnCalls st1) \<rparr>
         in case r of
              Inr result \<Rightarrow> (Inr result, st2)
            | Inl err \<Rightarrow>
                if messageIncludes err ''400'' \<or> messageIncludes err ''404''
                then (Inl err, st2)
                else if messageIncludes err ''429''
                then retryLoop fn maxRetries baseDelay (Suc attempt) err
                       (if int attempt < maxRetries - 1
                        then backoff (20000 * 3 ^ attempt) st2
                        else st2)
                else retryLoop fn maxRetries baseDelay (Suc attempt) err
                       (if int attempt < maxRetries - 1
                        then backoff (baseDelay * 2 ^ attempt) st2
                        else st2))
      else (Inl lastError, st))"
  by pat_completeness auto
termination
  by (relation "measure (\<lambda>(fn, maxRetries, baseDelay, attempt, lastError, st).
                           nat (maxRetries - int attempt))") auto

declare retryLoop.simps [simp del]

definition retryWithBackoff ::
  "(RetryState \<Rightarrow> thrown + 'a) \<Rightarrow> int \<Rightarrow> int \<Rightarrow> RetryState \<Rightarrow> (thrown + 'a) \<times> RetryState" where
  "retryWithBackoff fn maxRetries baseDelay st = retryLoop fn maxRetries baseDelay 0 Undefined st"

text \<open>
  The one call site, in \<open>compareImages\<close>, passes the default arguments:
  \<^verbatim>\<open>retryWithBackoff(async () => ..., 2, 10000)\<close>.
\<close>

definition retryGenerateContent ::
  "(RetryState \<Rightarrow> thrown + 'a) \<Rightarrow> RetryState \<Rightarrow> (thrown + 'a) \<times> RetryState" where
  "retryGenerateContent fn st = retryWithBackoff fn 2 10000 st"

section \<open>utils/firebase/imageQuest.ts\<close>

text \<open>
  Messages are written without their diacritics. The \<open>createdAt\<close> time stamp of a quest,
  which no function here reads, is left out.
\<close>

record ImageQuest =
  questId :: string
  orgId :: string
  description :: string
  latitude :: real
  longitude :: real
  imageUrl :: string
  score :: real
  questRadius :: real

record ImageComparisonResult =
  isMatch :: bool
  confidence :: real
  reasoning :: string
  matchedQuestId :: "string option"

definition CONFIDENCE_THRESHOLD :: real where
  "CONFIDENCE_THRESHOLD = 90"

text \<open>\<^verbatim>\<open>a || b\<close> on values that may be missing: the first one that is present and truthy.\<close>

definition orString :: "string option \<Rightarrow> string \<Rightarrow> string" where
  "orString a b = (case a of None \<Rightarrow> b | Some x \<Rightarrow> if x = [] then b else x)"

definition orNumber :: "real option \<Rightarrow> real \<Rightarrow> real" where
  "orNumber a b = (case a of None \<Rightarrow> b | Some x \<Rightarrow> if x = 0 then b else x)"

definition questOfDoc :: "QuestDoc \<Rightarrow> ImageQuest" where
  "questOfDoc d =
     \<lparr> questId = docId d, orgId = dOrgId d, description = dDescription d,
       latitude = dLatitude d, longitude = dLongitude d,
       imageUrl = orString (dReferenceImageUrl d) (orString (dImageUrl d) []),
       score = orNumber (dScore d) 100,
       questRadius = orNumber (dQuestRadius d) 100 \<rparr>"

definition getAllImageQuests :: "Firestore \<Rightarrow> thrown + ImageQuest list" where
  "getAllImageQuests db =
     (if \<not> reachable db
      then Inl (Error (Some ''Nu s-au putut incarca quest-urile de imagini''))
      else Inr (map questOfDoc (filter (\<lambda>d. dIsActive d \<noteq> Some False) (imageQuests db))))"

type_synonym CompareImages = "string \<Rightarrow> string \<Rightarrow> string \<Rightarrow> thrown + ImageComparisonResult"

text \<open>
  The \<^verbatim>\<open>for\<close> loop of \<open>findMatchingQuest\<close> over the unsolved quests, with \<open>bestMatch\<close>
  as the accumulator. An error of the oracle is caught and the loop goes on.
\<close>

fun compareLoop ::
  "CompareImages \<Rightarrow> string \<Rightarrow> ImageQuest list \<Rightarrow> (ImageQuest \<times> ImageComparisonResult) option
     \<Rightarrow> (ImageQuest \<times> ImageComparisonResult) option" where
  "compareLoop compareImages userImageUri [] bestMatch = bestMatch"
| "compareLoop compareImages userImageUri (quest # rest) bestMatch =
     (if imageUrl quest = [] then compareLoop compareImages userImageUri rest bestMatch
      else
        (case compareImages userImageUri (imageUrl quest) (description quest) of
           Inl err \<Rightarrow> compareLoop compareImages userImageUri rest bestMatch
         | Inr comparisonResult \<Rightarrow>
             if isMatch comparisonResult
                \<and> confidence comparisonResult \<ge> CONFIDENCE_THRESHOLD
                \<and> (case bestMatch of
                      None \<Rightarrow> True
                    | Some (bq, br) \<Rightarrow> confidence comparisonResult > confidence br)
             then compareLoop compareImages userImageUri rest (Some (quest, comparisonResult))
             else compareLoop compareImages userImageUri rest bestMatch))"

record MatchResult =
  mQuest :: "ImageQuest option"
  mComparisonResult :: ImageComparisonResult

definition noQuest :: "string \<Rightarrow> MatchResult" where
  "noQuest why =
     \<lparr> mQuest = None,
       mComparisonResult =
         \<lparr> isMatch = False, confidence = 0, reasoning = why, matchedQuestId = None \<rparr> \<rparr>"

definition nearbyQuests :: "LatLng \<Rightarrow> ImageQuest list \<Rightarrow> ImageQuest list" where
  "nearbyQuests userLocation allQuests =
     filter (\<lambda>quest.
        (let questLocation = \<lparr> lat = latitude quest, lng = longitude quest \<rparr>;
             distance = haversineDistance userLocation questLocation
         in distance \<le> questRadius quest)) allQuests"

definition solvedIdsOf :: "ClientDoc option \<Rightarrow> string list" where
  "solvedIdsOf clientDoc =
     (case clientDoc of
        None \<Rightarrow> []
      | Some d \<Rightarrow> (case imageQuestSolvedIds d of None \<Rightarrow> [] | Some ids \<Rightarrow> ids))"

definition findMatchingQuest ::
  "CompareImages \<Rightarrow> Firestore \<Rightarrow> string \<Rightarrow> LatLng \<Rightarrow> string \<Rightarrow> thrown + MatchResult" where
  "findMatchingQuest compareImages db userImageUri userLocation clientId =
     (case getAllImageQuests db of
        Inl err \<Rightarrow> Inl (Error (Some ''Nu s-a putut procesa imaginea''))
      | Inr allQuests \<Rightarrow>
          (let nearby = nearbyQuests userLocation allQuests in
           if length nearby = 0
           then Inr (noQuest ''Nu exista quest-uri disponibile in locatia ta curenta'')
           else
             (case getDoc db clientId of
                Inl err \<Rightarrow> Inl (Error (Some ''Nu s-a putut procesa imaginea''))
              | Inr clientDoc \<Rightarrow>
                  (let solvedQuestIds = solvedIdsOf clientDoc;
                       unsolvedQuests = filter (\<lambda>q. questId q \<notin> set solvedQuestIds) nearby
                   in if length unsolvedQuests = 0
                      then Inr (noQuest ''Toate quest-urile din apropiere au fost completate'')
                      else
                        (case compareLoop compareImages userImageUri unsolvedQuests None of
                           None \<Rightarrow> Inr (noQuest ''Nu s-a gasit niciun quest potrivit in aceasta zona'')
                         | Some (bq, br) \<Rightarrow>
                             Inr \<lparr> mQuest = Some bq,
                                   mComparisonResult = br\<lparr> matchedQuestId := Some (questId bq) \<rparr> \<rparr>)))))"

definition markQuestAsSolved :: "Firestore \<Rightarrow> string \<Rightarrow> string \<Rightarrow> real \<Rightarrow> thrown + Firestore" where
  "markQuestAsSolved db clientId qid pointsEarned =
     (if \<not> reachable db then Inl (Error (Some ''Nu s-a putut actualiza statusul quest-ului''))
      else
        (case clients db clientId of
           None \<Rightarrow> Inl (Error (Some ''Nu s-a putut actualiza statusul quest-ului''))
         | Some d \<Rightarrow>
             Inr (db\<lparr> clients := (clients db)(clientId \<mapsto>
                    d\<lparr> imageQuestSolvedIds := Some (arrayUnion (imageQuestSolvedIds d) [qid]),
                       accumulatedScore := Some (increment (accumulatedScore d) pointsEarned) \<rparr>) \<rparr>)))"

record SubmitResult =
  success :: bool
  sQuest :: "ImageQuest option"
  sResult :: ImageComparisonResult
  sPointsEarned :: "real option"

definition submitQuestImage ::
  "CompareImages \<Rightarrow> Firestore \<Rightarrow> string \<Rightarrow> LatLng \<Rightarrow> string \<Rightarrow> thrown + (SubmitResult \<times> Firestore)" where
  "submitQuestImage compareImages db userImageUri userLocation clientId =
     (case findMatchingQuest compareImages db userImageUri userLocation clientId of
        Inl err \<Rightarrow> Inl (Error (Some ''Nu s-a putut trimite imaginea pentru quest''))
      | Inr found \<Rightarrow>
          (case mQuest found of
             None \<Rightarrow>
               Inr (\<lparr> success = False, sQuest = None, sResult = mComparisonResult found,
                      sPointsEarned = None \<rparr>, db)
           | Some quest \<Rightarrow>
               if \<not> isMatch (mComparisonResult found)
               then Inr (\<lparr> success = False, sQuest = None, sResult = mComparisonResult found,
                           sPointsEarned = None \<rparr>, db)
               else
                 (let pointsEarned = score quest in
                  case markQuestAsSolved db clientId (questId quest) pointsEarned of
                    Inl err \<Rightarrow> Inl (Error (Some ''Nu s-a putut trimite imaginea pentru quest''))
                  | Inr db' \<Rightarrow>
                      Inr (\<lparr> success = True, sQuest = Some quest,
                             sResult = mComparisonResult found,
                             sPointsEarned = Some pointsEarned \<rparr>, db'))))"

section \<open>Concrete inputs\<close>

text \<open>
  A store holding the initial tracking state: the state object at address 0, its empty
  set of visited cells at address 1.
\<close>

definition initialStateObj :: StateObj where
  "initialStateObj =
     \<lparr> oLastLocation = None, oTotalDistanceMeters = 0, oPoints = 0, oVisitedCells = 1 \<rparr>"

definition initialHeap :: heap where
  "initialHeap =
     \<lparr> stateObjs = [0 \<mapsto> initialStateObj], setObjs = [1 \<mapsto> {}], nextAddr = 2 \<rparr>"

text \<open>
  Ten fixes going north from the origin of the grid, 0.0005 degrees apart, and the last
  of them; an empty store; a provider right after start-up, for a signed-in user or for
  none; a provider with a duplicate in its pending list and an unreachable store; a
  provider with nine pending cells.
\<close>

definition tenFixes :: "LatLng list" where
  "tenFixes =
     [\<lparr> lat = 45.75372, lng = 21.22571 \<rparr>, \<lparr> lat = 45.75422, lng = 21.22571 \<rparr>,
      \<lparr> lat = 45.75472, lng = 21.22571 \<rparr>, \<lparr> lat = 45.75522, lng = 21.22571 \<rparr>,
      \<lparr> lat = 45.75572, lng = 21.22571 \<rparr>, \<lparr> lat = 45.75622, lng = 21.22571 \<rparr>,
      \<lparr> lat = 45.75672, lng = 21.22571 \<rparr>, \<lparr> lat = 45.75722, lng = 21.22571 \<rparr>,
      \<lparr> lat = 45.75772, lng = 21.22571 \<rparr>, \<lparr> lat = 45.75822, lng = 21.22571 \<rparr>]"

definition emptyStore :: Firestore where
  "emptyStore = \<lparr> clients = Map.empty, imageQuests = [], reachable = True \<rparr>"

definition freshProvider :: "string option \<Rightarrow> Provider" where
  "freshProvider uid =
     \<lparr> trackingState = createInitialTrackingState, visitedCellsLocations = [],
       clientIdRef = uid, pendingCellsRef = [], pendingPointsRef = 0,
       firestore = emptyStore, setDocCalls = [], caughtErrors = [] \<rparr>"

definition flushExample :: Provider where
  "flushExample =
     (freshProvider (Some ''u1''))
       \<lparr> pendingCellsRef := [''0_0'', ''0_1'', ''0_0''], pendingPointsRef := 100.5,
         firestore := emptyStore\<lparr> reachable := False \<rparr> \<rparr>"

definition ninePending :: Provider where
  "ninePending =
     (freshProvider (Some ''u1''))
       \<lparr> trackingState := createInitialTrackingState
            \<lparr> visitedCells := {''0_0'', ''0_1'', ''0_2'', ''0_3'', ''0_4'', ''0_5'', ''0_6'', ''0_7'', ''0_8''} \<rparr>,
         pendingCellsRef := [''0_0'', ''0_1'', ''0_2'', ''0_3'', ''0_4'', ''0_5'', ''0_6'', ''0_7'', ''0_8''],
         pendingPointsRef := 450 \<rparr>"

definition tenthFix :: LatLng where
  "tenthFix = \<lparr> lat = 45.75822, lng = 21.22571 \<rparr>"

text \<open>
  The state of the retry wrapper at a first call, and a call that always throws an error
  with a given message; a quest at the origin of the grid, as stored and as read, a
  client document, a store holding that quest and that client, and an oracle that always
  reports a match with a given confidence.
\<close>

definition retryStart :: RetryState where
  "retryStart = \<lparr> now = 1000000, lastApiCallTime = 0, fnCalls = 0, rateLimitWaits = [], backoffDelays = [] \<rparr>"

definition alwaysThrows :: "string \<Rightarrow> RetryState \<Rightarrow> thrown + string" where
  "alwaysThrows msg st = Inl (Error (Some msg))"

definition quest1Doc :: QuestDoc where
  "quest1Doc =
     \<lparr> docId = ''q1'', dIsActive = None, dOrgId = ''org1'', dDescription = ''the fountain'',
       dLatitude = 45.75372, dLongitude = 21.22571,
       dReferenceImageUrl = Some ''http://img/q1.jpg'', dImageUrl = None,
       dScore = Some 150, dQuestRadius = None \<rparr>"

definition quest1 :: ImageQuest where
  "quest1 =
     \<lparr> questId = ''q1'', orgId = ''org1'', description = ''the fountain'',
       latitude = 45.75372, longitude = 21.22571, imageUrl = ''http://img/q1.jpg'',
       score = 150, questRadius = 100 \<rparr>"

definition clientWith :: "string list \<Rightarrow> real \<Rightarrow> ClientDoc" where
  "clientWith solved sc =
     \<lparr> imageQuestSolvedIds = Some solved, accumulatedScore = Some sc, mapGridIds = None \<rparr>"

definition questStore :: "ClientDoc \<Rightarrow> Firestore" where
  "questStore d = \<lparr> clients = [''u1'' \<mapsto> d], imageQuests = [quest1Doc], reachable = True \<rparr>"

definition oracleSays :: "real \<Rightarrow> CompareImages" where
  "oracleSays c userImageUri referenceImageUrl descr =
     Inr \<lparr> isMatch = True, confidence = c, reasoning = ''same landmark'', matchedQuestId = None \<rparr>"

section \<open>Properties of the grid\<close>

lemma digitChar_isDigit: "d < 10 \<Longrightarrow> isDigit (digitChar d)"
  by (simp add: isDigit_def digitChar_def)

lemma digitVal_digitChar: "d < 10 \<Longrightarrow> digitVal (digitChar d) = d"
  by (simp add: digitVal_def digitChar_def)

lemma natDigits_all_digits: "\<forall>c \<in> set (natDigits n). isDigit c"
proof (induction n rule: natDigits.induct)
  case (1 n)
  show ?case
  proof (cases "n < 10")
    case True
    then show ?thesis by (simp add: natDigits.simps [of n] digitChar_isDigit)
  next
    case False
    with 1 show ?thesis by (simp add: natDigits.simps [of n] digitChar_isDigit)
  qed
qed

lemma natDigits_nonempty: "natDigits n \<noteq> []"
  by (simp add: natDigits.simps [of n])

lemma digitsValue_snoc: "digitsValue (ds @ [c]) = 10 * digitsValue ds + digitVal c"
  by (simp add: digitsValue_def)

lemma digitsValue_natDigits: "digitsValue (natDigits n) = n"
proof (induction n rule: natDigits.induct)
  case (1 n)
  show ?case
  proof (cases "n < 10")
    case True
    then show ?thesis by (simp add: natDigits.simps [of n] digitsValue_def digitVal_digitChar)
  next
    case False
    with 1 have "digitsValue (natDigits (n div 10)) = n div 10" by simp
    with False show ?thesis
      by (simp add: natDigits.simps [of n] digitsValue_snoc digitVal_digitChar)
  qed
qed

lemma isDigit_not_white: "isDigit c \<Longrightarrow> \<not> isWhiteSpace c"
  by (auto simp: isDigit_def isWhiteSpace_def)

lemma takeWhile_all: "\<forall>c \<in> set xs. P c \<Longrightarrow> takeWhile P xs = xs"
  by (induction xs) auto

lemma parseInt_natDigits: "parseInt (natDigits n) = Some (int n)"
proof -
  obtain c cs where eq: "natDigits n = c # cs"
    using natDigits_nonempty [of n] by (cases "natDigits n") auto
  have dig: "\<forall>c \<in> set (natDigits n). isDigit c" by (rule natDigits_all_digits)
  with eq have c: "isDigit c" by simp
  then have nw: "\<not> isWhiteSpace c" by (rule isDigit_not_white)
  from c have ns: "c \<noteq> CHR ''-''" "c \<noteq> CHR ''+''" by (auto simp: isDigit_def)
  have tw: "takeWhile isDigit (natDigits n) = natDigits n" using dig by (rule takeWhile_all)
  have "parseInt (c # cs) = Some (int (digitsValue (c # cs)))"
    using nw ns tw eq by (simp add: parseInt_def Let_def)
  then show ?thesis using eq digitsValue_natDigits [of n] by simp
qed

lemma parseInt_numberToString: "parseInt (numberToString i) = Some i"
proof (cases "i < 0")
  case False
  then show ?thesis by (simp add: numberToString_def parseInt_natDigits)
next
  case True
  have dig: "\<forall>c \<in> set (natDigits (nat (- i))). isDigit c" by (rule natDigits_all_digits)
  have tw: "takeWhile isDigit (natDigits (nat (- i))) = natDigits (nat (- i))"
    using dig by (rule takeWhile_all)
  have nw: "\<not> isWhiteSpace CHR ''-''" by (simp add: isWhiteSpace_def)
  show ?thesis using True nw natDigits_nonempty [of "nat (- i)"]
    by (simp add: numberToString_def parseInt_def Let_def digitsValue_natDigits tw)
qed

lemma numberToString_no_sep: "CHR ''_'' \<notin> set (numberToString i)"
proof -
  have "\<not> isDigit CHR ''_''" by (simp add: isDigit_def)
  then have "CHR ''_'' \<notin> set (natDigits n)" for n using natDigits_all_digits [of n] by blast
  then show ?thesis by (simp add: numberToString_def)
qed

lemma split_no_sep: "sep \<notin> set s \<Longrightarrow> split sep s = [s]"
  by (induction s) auto

lemma split_two: "sep \<notin> set a \<Longrightarrow> sep \<notin> set b \<Longrightarrow> split sep (a @ sep # b) = [a, b]"
  by (induction a) (auto simp: split_no_sep)

lemma origin_cos_pos: "0 < metersPerDegLng (lat ORIGIN)"
proof -
  have "0 < (45.75372 * pi) / 180" by simp
  moreover have "(45.75372 * pi) / 180 < pi / 2" by simp
  ultimately have "0 < cos ((45.75372 * pi) / 180)"
    by (intro cos_gt_zero_pi) auto
  then show ?thesis by (simp add: metersPerDegLng_def ORIGIN_def)
qed


lemma latLngToCell_parts:
  "split CHR ''_'' (latLngToCell p) =
     [numberToString \<lfloor>(lng p - lng ORIGIN) * metersPerDegLng (lat ORIGIN) / CELL_SIZE_METERS\<rfloor>,
      numberToString \<lfloor>(lat p - lat ORIGIN) * METERS_PER_DEG_LAT / CELL_SIZE_METERS\<rfloor>]"
  by (simp add: latLngToCell_def Let_def split_two numberToString_no_sep)

lemma parseComponent_pair:
  "parseComponent [a, b] 0 = parseInt a" "parseComponent [a, b] (Suc 0) = parseInt b"
  by (simp_all add: parseComponent_def)

lemma latLngToCell_indices:
  "parseComponent (split CHR ''_'' (latLngToCell p)) 0 =
     Some \<lfloor>(lng p - lng ORIGIN) * metersPerDegLng (lat ORIGIN) / CELL_SIZE_METERS\<rfloor>"
  "parseComponent (split CHR ''_'' (latLngToCell p)) (Suc 0) =
     Some \<lfloor>(lat p - lat ORIGIN) * METERS_PER_DEG_LAT / CELL_SIZE_METERS\<rfloor>"
  unfolding latLngToCell_parts parseComponent_pair by (rule parseInt_numberToString)+

lemma metersToLatLng_lat_mono: "y < y' \<Longrightarrow> lat (metersToLatLng x y) < lat (metersToLatLng x' y')"
  by (simp add: metersToLatLng_def Let_def METERS_PER_DEG_LAT_def divide_strict_right_mono)

lemma metersToLatLng_lng_mono: "x < x' \<Longrightarrow> lng (metersToLatLng x y) < lng (metersToLatLng x' y')"
  using origin_cos_pos by (simp add: metersToLatLng_def Let_def divide_strict_right_mono)

lemma metersToLatLng_lat_eq: "lat (metersToLatLng x y) = lat (metersToLatLng x' y)"
  by (simp add: metersToLatLng_def Let_def)

lemma metersToLatLng_lng_eq: "lng (metersToLatLng x y) = lng (metersToLatLng x y')"
  by (simp add: metersToLatLng_def Let_def)

text \<open>
  Claim C7. For every coordinate \<open>p\<close>, the cell id \<open>latLngToCell p\<close> is a function of
  \<open>p\<close> alone (the definition reads nothing but \<open>p\<close> and the constants of the grid), both
  of its indices parse back, and the centre \<open>cellCenter\<close> returns for it lies strictly
  inside the square spanned by the four corners that \<open>cellToPolygon\<close> returns for it, in
  the order NW, NE, SE, SW: between the southern and the northern edge in latitude,
  between the western and the eastern edge in longitude.
\<close>

theorem cellCenter_inside_cellToPolygon:
  "\<exists>c nw ne se sw.
     cellCenter (latLngToCell p) = Some c \<and>
     cellToPolygon (latLngToCell p) = Some [nw, ne, se, sw] \<and>
     lat nw = lat ne \<and> lat sw = lat se \<and> lng nw = lng sw \<and> lng ne = lng se \<and>
     lat sw < lat c \<and> lat c < lat nw \<and> lng sw < lng c \<and> lng c < lng se"
proof -
  define xi where "xi = \<lfloor>(lng p - lng ORIGIN) * metersPerDegLng (lat ORIGIN) / CELL_SIZE_METERS\<rfloor>"
  define yi where "yi = \<lfloor>(lat p - lat ORIGIN) * METERS_PER_DEG_LAT / CELL_SIZE_METERS\<rfloor>"
  define xc where "xc = (real_of_int xi + 0.5) * CELL_SIZE_METERS"
  define yc where "yc = (real_of_int yi + 0.5) * CELL_SIZE_METERS"
  define half where "half = CELL_SIZE_METERS / 2"
  have px: "parseComponent (split CHR ''_'' (latLngToCell p)) 0 = Some xi"
    and py: "parseComponent (split CHR ''_'' (latLngToCell p)) (Suc 0) = Some yi"
    unfolding xi_def yi_def by (rule latLngToCell_indices)+
  have c: "cellCenter (latLngToCell p) = Some (metersToLatLng xc yc)"
    by (simp add: cellCenter_def Let_def px py xc_def yc_def)
  have poly: "cellToPolygon (latLngToCell p) =
      Some [metersToLatLng (xc - half) (yc + half), metersToLatLng (xc + half) (yc + half),
            metersToLatLng (xc + half) (yc - half), metersToLatLng (xc - half) (yc - half)]"
    by (simp add: cellToPolygon_def Let_def px py xc_def yc_def half_def)
  have hp: "0 < half" by (simp add: half_def CELL_SIZE_METERS_def)
  have "lat (metersToLatLng (xc - half) (yc - half)) < lat (metersToLatLng xc yc)"
    using hp by (intro metersToLatLng_lat_mono) simp
  moreover have "lat (metersToLatLng xc yc) < lat (metersToLatLng (xc - half) (yc + half))"
    using hp by (intro metersToLatLng_lat_mono) simp
  moreover have "lng (metersToLatLng (xc - half) (yc - half)) < lng (metersToLatLng xc yc)"
    using hp by (intro metersToLatLng_lng_mono) simp
  moreover have "lng (metersToLatLng xc yc) < lng (metersToLatLng (xc + half) (yc - half))"
    using hp by (intro metersToLatLng_lng_mono) simp
  moreover have "lat (metersToLatLng (xc - half) (yc + half)) = lat (metersToLatLng (xc + half) (yc + half))"
    by (rule metersToLatLng_lat_eq)
  moreover have "lat (metersToLatLng (xc - half) (yc - half)) = lat (metersToLatLng (xc + half) (yc - half))"
    by (rule metersToLatLng_lat_eq)
  moreover have "lng (metersToLatLng (xc - half) (yc + half)) = lng (metersToLatLng (xc - half) (yc - half))"
    by (rule metersToLatLng_lng_eq)
  moreover have "lng (metersToLatLng (xc + half) (yc + half)) = lng (metersToLatLng (xc + half) (yc - half))"
    by (rule metersToLatLng_lng_eq)
  ultimately show ?thesis using c poly by blast
qed

section \<open>Properties of the tracker\<close>

lemma haversineDistance_same: "haversineDistance p p = 0"
  by (simp add: haversineDistance_def toRad_def atan2_def Let_def)

lemma handleLocationUpdate_lastLocation:
  "lastLocation (state (handleLocationUpdate s p)) = Some p"
  by (simp add: handleLocationUpdate_def Let_def split: option.splits prod.splits)

lemma handleLocationUpdate_visited:
  "visitedCells (state (handleLocationUpdate s p)) = insert (latLngToCell p) (visitedCells s)"
  by (auto simp: handleLocationUpdate_def Let_def split: option.splits prod.splits if_splits)

text \<open>
  Claim C6. For every tracking state \<open>s\<close> and location \<open>p\<close>: when \<open>handleLocationUpdate\<close>
  is applied to \<open>s\<close> and \<open>p\<close> and then to the resulting state and the same \<open>p\<close>, the
  second call returns \<open>gainedDistance = 0\<close>, \<open>gainedPoints = 0\<close> and
  \<open>newCellVisited = false\<close>: the distance from \<open>p\<close> to itself is 0, which is not above
  the 3 m threshold, and the cell of \<open>p\<close> is already among the visited cells.
\<close>

theorem same_location_twice_gains_nothing:
  "gainedDistance (handleLocationUpdate (state (handleLocationUpdate s p)) p) = 0 \<and>
   gainedPoints (handleLocationUpdate (state (handleLocationUpdate s p)) p) = 0 \<and>
   newCellVisited (handleLocationUpdate (state (handleLocationUpdate s p)) p) = False"
proof -
  define s1 where "s1 = state (handleLocationUpdate s p)"
  have l: "lastLocation s1 = Some p" by (simp add: s1_def handleLocationUpdate_lastLocation)
  have v: "latLngToCell p \<in> visitedCells s1" by (simp add: s1_def handleLocationUpdate_visited)
  show ?thesis unfolding s1_def [symmetric]
    using l v by (simp add: handleLocationUpdate_def Let_def haversineDistance_same)
qed

text \<open>
  Claim C10. On the first fix of a session, for every location \<open>p\<close>, applying
  \<open>handleLocationUpdate\<close> to the initial state (no last location, no visited cell)
  returns \<open>gainedDistance = 0\<close>, \<open>newCellVisited = true\<close> and \<open>gainedPoints = 50\<close>:
  only the new-cell bonus is awarded.
\<close>

theorem first_fix_awards_cell_bonus_only:
  "gainedDistance (handleLocationUpdate createInitialTrackingState p) = 0 \<and>
   newCellVisited (handleLocationUpdate createInitialTrackingState p) = True \<and>
   gainedPoints (handleLocationUpdate createInitialTrackingState p) = 50"
  by (simp add: handleLocationUpdate_def createInitialTrackingState_def Let_def)

subsection \<open>The transition on the store\<close>

lemma handleLocationUpdateH_run:
  assumes st: "stateObjs h prevState = Some prev"
      and cs: "setObjs h (oVisitedCells prev) = Some cells"
  shows "\<exists>h' res. handleLocationUpdateH h prevState p = Some (h', res) \<and>
           rState res = Suc (nextAddr h) \<and>
           (\<exists>obj. stateObjs h' (rState res) = Some obj \<and> oVisitedCells obj = nextAddr h) \<and>
           (\<forall>a. a \<noteq> Suc (nextAddr h) \<longrightarrow> stateObjs h' a = stateObjs h a) \<and>
           (\<forall>a. a \<noteq> nextAddr h \<longrightarrow> setObjs h' a = setObjs h a)"
  using st cs
  by (auto simp: handleLocationUpdateH_def allocSet_def allocState_def writeState_def
       setAdd_def Let_def split: option.splits)

text \<open>
  The transition on values is what the transition on the store computes: the new state
  object, read back with its set, and the other fields of the result agree.
\<close>

lemma handleLocationUpdateH_refines:
  assumes rd: "readState h prevState = Some s"
      and run: "handleLocationUpdateH h prevState p = Some (h', res)"
  shows "readState h' (rState res) = Some (state (handleLocationUpdate s p)) \<and>
         rGainedDistance res = gainedDistance (handleLocationUpdate s p) \<and>
         rGainedPoints res = gainedPoints (handleLocationUpdate s p) \<and>
         rNewCellVisited res = newCellVisited (handleLocationUpdate s p) \<and>
         rLastCellId res = lastCellId (handleLocationUpdate s p)"
  using rd run
  by (auto simp: handleLocationUpdateH_def handleLocationUpdate_def readState_def allocSet_def
       allocState_def writeState_def setAdd_def Let_def
       split: option.splits if_splits Option.bind_splits)

text \<open>
  Claim C9. \<open>handleLocationUpdate\<close> never mutates its input. For every store in which the
  previous state object and its set of visited cells are allocated (below the next fresh
  address), and every location: the call returns, the previous state object still holds
  the same fields (\<open>lastLocation\<close>, \<open>totalDistanceMeters\<close>, \<open>points\<close>, and the reference
  to its set), its set still holds the same cells, and the returned state is another
  object, whose set of visited cells is another set object.
\<close>

theorem handleLocationUpdateH_leaves_input:
  assumes st: "stateObjs h prevState = Some prev"
      and cs: "setObjs h (oVisitedCells prev) = Some cells"
      and a1: "prevState < nextAddr h"
      and a2: "oVisitedCells prev < nextAddr h"
  shows "\<exists>h' res obj. handleLocationUpdateH h prevState p = Some (h', res) \<and>
           stateObjs h' prevState = Some prev \<and>
           setObjs h' (oVisitedCells prev) = Some cells \<and>
           readState h' prevState = readState h prevState \<and>
           rState res \<noteq> prevState \<and>
           stateObjs h' (rState res) = Some obj \<and>
           oVisitedCells obj \<noteq> oVisitedCells prev"
proof -
  from handleLocationUpdateH_run [OF st cs, of p] obtain h' res obj where
    run: "handleLocationUpdateH h prevState p = Some (h', res)"
    and r: "rState res = Suc (nextAddr h)"
    and o: "stateObjs h' (rState res) = Some obj" "oVisitedCells obj = nextAddr h"
    and f1: "\<forall>a. a \<noteq> Suc (nextAddr h) \<longrightarrow> stateObjs h' a = stateObjs h a"
    and f2: "\<forall>a. a \<noteq> nextAddr h \<longrightarrow> setObjs h' a = setObjs h a"
    by blast
  from a1 f1 st have s': "stateObjs h' prevState = Some prev" by simp
  from a2 f2 cs have c': "setObjs h' (oVisitedCells prev) = Some cells" by simp
  have "readState h' prevState = readState h prevState"
    by (simp add: readState_def s' c' st cs)
  with run r o s' c' a1 a2 show ?thesis by auto
qed

theorem handleLocationUpdateH_leaves_input_witness:
  "stateObjs initialHeap 0 = Some initialStateObj \<and>
   setObjs initialHeap (oVisitedCells initialStateObj) = Some {} \<and>
   0 < nextAddr initialHeap \<and>
   oVisitedCells initialStateObj < nextAddr initialHeap \<and>
   (\<exists>h' res obj. handleLocationUpdateH initialHeap 0 ORIGIN = Some (h', res) \<and>
      stateObjs h' 0 = Some initialStateObj \<and>
      setObjs h' (oVisitedCells initialStateObj) = Some {} \<and>
      readState h' 0 = readState initialHeap 0 \<and>
      rState res \<noteq> 0 \<and>
      stateObjs h' (rState res) = Some obj \<and>
      oVisitedCells obj \<noteq> oVisitedCells initialStateObj)"
proof -
  have h1: "stateObjs initialHeap 0 = Some initialStateObj"
    by (simp add: initialHeap_def)
  have h2: "setObjs initialHeap (oVisitedCells initialStateObj) = Some {}"
    by (simp add: initialHeap_def initialStateObj_def)
  have h3: "0 < nextAddr initialHeap"
    by (simp add: initialHeap_def)
  have h4: "oVisitedCells initialStateObj < nextAddr initialHeap"
    by (simp add: initialHeap_def initialStateObj_def)
  from handleLocationUpdateH_leaves_input [OF h1 h2 h3 h4, of ORIGIN] h1 h2 h3 h4
  show ?thesis by blast
qed

section \<open>Properties of the sync buffer\<close>

subsection \<open>The cells of the ten fixes\<close>

lemma digitChar_numeral:
  "digitChar 0 = CHR ''0''" "digitChar 1 = CHR ''1''" "digitChar 2 = CHR ''2''"
  "digitChar 3 = CHR ''3''" "digitChar 4 = CHR ''4''" "digitChar 5 = CHR ''5''"
  "digitChar 6 = CHR ''6''" "digitChar 7 = CHR ''7''" "digitChar 8 = CHR ''8''"
  "digitChar 9 = CHR ''9''" "digitChar (Suc 0) = CHR ''1''"
  unfolding digitChar_def by (rule of_char_eqI [where ?'a = nat], simp)+

lemma tenFixes_cells:
  "map latLngToCell tenFixes =
     [''0_0'', ''0_1'', ''0_2'', ''0_3'', ''0_4'', ''0_5'', ''0_6'', ''0_7'', ''0_8'', ''0_10'']"
  by (simp add: tenFixes_def latLngToCell_def ORIGIN_def METERS_PER_DEG_LAT_def
        CELL_SIZE_METERS_def numberToString_def natDigits.simps digitChar_numeral Let_def)

subsection \<open>Deduplication and rounding\<close>

lemma foldl_insert_new_set:
  "set (foldl (\<lambda>acc x. if x \<in> set acc then acc else acc @ [x]) acc xs) = set acc \<union> set xs"
  by (induction xs arbitrary: acc) auto

lemma foldl_insert_new_distinct:
  "distinct acc \<Longrightarrow> distinct (foldl (\<lambda>acc x. if x \<in> set acc then acc else acc @ [x]) acc xs)"
  by (induction xs arbitrary: acc) auto

lemma foldl_insert_new_id:
  "distinct (acc @ xs) \<Longrightarrow> foldl (\<lambda>acc x. if x \<in> set acc then acc else acc @ [x]) acc xs = acc @ xs"
  by (induction xs arbitrary: acc) auto

lemma set_spreadNewSet: "set (spreadNewSet xs) = set xs"
  by (simp add: spreadNewSet_def foldl_insert_new_set)

lemma distinct_spreadNewSet: "distinct (spreadNewSet xs)"
  by (simp add: spreadNewSet_def foldl_insert_new_distinct)

lemma spreadNewSet_distinct: "distinct xs \<Longrightarrow> spreadNewSet xs = xs"
  using foldl_insert_new_id [of "[]" xs] by (simp add: spreadNewSet_def)

lemma spreadNewSet_Nil_iff: "spreadNewSet xs = [] \<longleftrightarrow> xs = []"
  using set_spreadNewSet [of xs] by (metis set_empty)

lemma mathRound_nearest: "\<bar>x - real_of_int (mathRound x)\<bar> \<le> 1 / 2"
  unfolding mathRound_def by linarith

subsection \<open>flushBuffer\<close>

lemma syncBatchToFirebase_issued:
  assumes "clientId \<noteq> []" and "cellIds \<noteq> [] \<or> 0 < pts"
  shows "syncBatchToFirebase setDoc clientId cellIds pts w =
           (let data = \<lparr> sAccumulatedScore = (if mathRound pts \<noteq> 0 then Some (mathRound pts) else None),
                          sMapGridIds = (if cellIds \<noteq> [] then Some cellIds else None) \<rparr>;
                w1 = w\<lparr> setDocCalls := setDocCalls w @ [(clientId, data)] \<rparr>
            in (fst (setDoc clientId data w1), w1\<lparr> firestore := snd (setDoc clientId data w1) \<rparr>))"
  using assms by (auto simp: syncBatchToFirebase_def Let_def split: prod.splits)

lemma catchSync_fields:
  "pendingCellsRef (catchSync (e, w)) = pendingCellsRef w"
  "pendingPointsRef (catchSync (e, w)) = pendingPointsRef w"
  "setDocCalls (catchSync (e, w)) = setDocCalls w"
  "clientIdRef (catchSync (e, w)) = clientIdRef w"
  "trackingState (catchSync (e, w)) = trackingState w"
  "caughtErrors (catchSync (e, w)) = (case e of None \<Rightarrow> caughtErrors w | Some err \<Rightarrow> caughtErrors w @ [err])"
  by (simp_all add: catchSync_def split: option.splits)

text \<open>
  The flush written out inside \<open>onLocationUpdate\<close> is the one of \<open>flushBuffer\<close>.
\<close>

lemma autoFlush_is_flushBuffer:
  "10 \<le> length (pendingCellsRef w) \<Longrightarrow> autoFlush setDoc w = flushBuffer setDoc w"
  by (auto simp: autoFlush_def flushBuffer_def)

text \<open>
  Claim C4. A flush that reaches the store (a client id is set, and there is a pending
  cell or a positive amount of pending points) snapshots the buffer and clears it before
  the store call is issued: \<open>setDoc\<close> is run on the provider \<open>issued\<close>, in which
  \<open>pendingCellsRef\<close> is empty and \<open>pendingPointsRef\<close> is 0. The call carries the pending
  cell ids without duplicates and the pending points rounded to the nearest integer (each
  key left out when there is nothing to send for it). Whatever the store call answers the
  buffer is empty after the flush; when it fails, the error is reported and the buffer is
  not restored. The automatic flush at ten pending cells is the same flush.
\<close>

theorem flushBuffer_clears_before_setDoc:
  assumes cid: "clientIdRef w = Some clientId" and ne: "clientId \<noteq> []"
      and pend: "pendingCellsRef w \<noteq> [] \<or> 0 < pendingPointsRef w"
  shows "\<exists>data issued.
           issued = w\<lparr> pendingCellsRef := [], pendingPointsRef := 0,
                       setDocCalls := setDocCalls w @ [(clientId, data)] \<rparr> \<and>
           pendingCellsRef issued = [] \<and> pendingPointsRef issued = 0 \<and>
           flushBuffer setDoc w =
             catchSync (fst (setDoc clientId data issued),
                        issued\<lparr> firestore := snd (setDoc clientId data issued) \<rparr>) \<and>
           sMapGridIds data =
             (if pendingCellsRef w = [] then None else Some (spreadNewSet (pendingCellsRef w))) \<and>
           distinct (spreadNewSet (pendingCellsRef w)) \<and>
           set (spreadNewSet (pendingCellsRef w)) = set (pendingCellsRef w) \<and>
           sAccumulatedScore data =
             (if mathRound (pendingPointsRef w) = 0 then None
              else Some (mathRound (pendingPointsRef w))) \<and>
           \<bar>pendingPointsRef w - real_of_int (mathRound (pendingPointsRef w))\<bar> \<le> 1 / 2 \<and>
           pendingCellsRef (flushBuffer setDoc w) = [] \<and>
           pendingPointsRef (flushBuffer setDoc w) = 0 \<and>
           setDocCalls (flushBuffer setDoc w) = setDocCalls w @ [(clientId, data)] \<and>
           (\<forall>err. fst (setDoc clientId data issued) = Some err \<longrightarrow>
                  caughtErrors (flushBuffer setDoc w) = caughtErrors w @ [err] \<and>
                  pendingCellsRef (flushBuffer setDoc w) = [] \<and>
                  pendingPointsRef (flushBuffer setDoc w) = 0) \<and>
           (10 \<le> length (pendingCellsRef w) \<longrightarrow>
                  autoFlush setDoc w = flushBuffer setDoc w)"
proof -
  define data where "data =
    \<lparr> sAccumulatedScore = (if mathRound (pendingPointsRef w) \<noteq> 0
                            then Some (mathRound (pendingPointsRef w)) else None),
      sMapGridIds = (if spreadNewSet (pendingCellsRef w) \<noteq> []
                     then Some (spreadNewSet (pendingCellsRef w)) else None) \<rparr>"
  define issued where "issued =
    w\<lparr> pendingCellsRef := [], pendingPointsRef := 0,
       setDocCalls := setDocCalls w @ [(clientId, data)] \<rparr>"
  from pend have pend': "spreadNewSet (pendingCellsRef w) \<noteq> [] \<or> 0 < pendingPointsRef w"
    by (simp add: spreadNewSet_Nil_iff)
  from pend have nz: "\<not> (length (pendingCellsRef w) = 0 \<and> pendingPointsRef w = 0)" by auto
  have "flushBuffer setDoc w =
      catchSync (syncBatchToFirebase setDoc clientId (spreadNewSet (pendingCellsRef w))
                   (pendingPointsRef w) (w\<lparr> pendingCellsRef := [], pendingPointsRef := 0 \<rparr>))"
    using pend cid ne by (auto simp: flushBuffer_def Let_def)
  also have "\<dots> = catchSync (fst (setDoc clientId data issued),
                 issued\<lparr> firestore := snd (setDoc clientId data issued) \<rparr>)"
    unfolding syncBatchToFirebase_issued [OF ne pend']
    by (simp add: Let_def data_def issued_def)
  finally have fl: "flushBuffer setDoc w =
      catchSync (fst (setDoc clientId data issued),
                 issued\<lparr> firestore := snd (setDoc clientId data issued) \<rparr>)" .
  have "pendingCellsRef (flushBuffer setDoc w) = []"
    and "pendingPointsRef (flushBuffer setDoc w) = 0"
    and "setDocCalls (flushBuffer setDoc w) = setDocCalls w @ [(clientId, data)]"
    and "\<forall>err. fst (setDoc clientId data issued) = Some err \<longrightarrow>
           caughtErrors (flushBuffer setDoc w) = caughtErrors w @ [err]"
    unfolding fl by (simp_all add: catchSync_fields issued_def)
  moreover have "sMapGridIds data =
      (if pendingCellsRef w = [] then None else Some (spreadNewSet (pendingCellsRef w)))"
    by (simp add: data_def spreadNewSet_Nil_iff)
  moreover have "sAccumulatedScore data =
      (if mathRound (pendingPointsRef w) = 0 then None else Some (mathRound (pendingPointsRef w)))"
    by (simp add: data_def)
  moreover have "pendingCellsRef issued = []" "pendingPointsRef issued = 0"
    by (simp_all add: issued_def)
  moreover have "10 \<le> length (pendingCellsRef w) \<longrightarrow> autoFlush setDoc w = flushBuffer setDoc w"
    by (simp add: autoFlush_is_flushBuffer)
  ultimately show ?thesis
    using fl distinct_spreadNewSet [of "pendingCellsRef w"] set_spreadNewSet [of "pendingCellsRef w"]
      mathRound_nearest [of "pendingPointsRef w"] issued_def
    by blast
qed

theorem flushBuffer_clears_before_setDoc_witness:
  "clientIdRef flushExample = Some ''u1'' \<and> ''u1'' \<noteq> [] \<and>
   pendingCellsRef flushExample \<noteq> [] \<and>
   pendingCellsRef (flushBuffer firestoreSetDoc flushExample) = [] \<and>
   pendingPointsRef (flushBuffer firestoreSetDoc flushExample) = 0 \<and>
   setDocCalls (flushBuffer firestoreSetDoc flushExample) =
     [(''u1'', \<lparr> sAccumulatedScore = Some 101, sMapGridIds = Some [''0_0'', ''0_1''] \<rparr>)] \<and>
   caughtErrors (flushBuffer firestoreSetDoc flushExample) = [unavailable]"
proof -
  have h1: "clientIdRef flushExample = Some ''u1''"
    by (simp add: flushExample_def freshProvider_def)
  have h2: "''u1'' \<noteq> []" by simp
  have h3: "pendingCellsRef flushExample \<noteq> []"
    by (simp add: flushExample_def freshProvider_def)
  then have h3': "pendingCellsRef flushExample \<noteq> [] \<or> 0 < pendingPointsRef flushExample" ..
  have cells: "spreadNewSet (pendingCellsRef flushExample) = [''0_0'', ''0_1'']"
    by (simp add: flushExample_def freshProvider_def spreadNewSet_def)
  have pts: "mathRound (pendingPointsRef flushExample) = 101"
    by (simp add: flushExample_def freshProvider_def mathRound_def)
  from flushBuffer_clears_before_setDoc [OF h1 h2 h3', of firestoreSetDoc]
  obtain data issued where
    i: "issued = flushExample\<lparr> pendingCellsRef := [], pendingPointsRef := 0,
            setDocCalls := setDocCalls flushExample @ [(''u1'', data)] \<rparr>"
    and g: "sMapGridIds data = Some [''0_0'', ''0_1'']"
    and a: "sAccumulatedScore data = Some 101"
    and c: "pendingCellsRef (flushBuffer firestoreSetDoc flushExample) = []"
    and p: "pendingPointsRef (flushBuffer firestoreSetDoc flushExample) = 0"
    and l: "setDocCalls (flushBuffer firestoreSetDoc flushExample) =
              setDocCalls flushExample @ [(''u1'', data)]"
    and e: "\<forall>err. fst (firestoreSetDoc ''u1'' data issued) = Some err \<longrightarrow>
              caughtErrors (flushBuffer firestoreSetDoc flushExample) =
                caughtErrors flushExample @ [err]"
    unfolding cells pts using h3 by auto
  from g a have d: "data = \<lparr> sAccumulatedScore = Some 101, sMapGridIds = Some [''0_0'', ''0_1''] \<rparr>"
    by (cases data) simp
  have "fst (firestoreSetDoc ''u1'' data issued) = Some unavailable"
    by (simp add: firestoreSetDoc_def i flushExample_def freshProvider_def emptyStore_def)
  with e have "caughtErrors (flushBuffer firestoreSetDoc flushExample) = [unavailable]"
    by (simp add: flushExample_def freshProvider_def)
  with h1 h2 h3 c p l d show ?thesis
    by (simp add: flushExample_def freshProvider_def)
qed

subsection \<open>onLocationUpdate\<close>

lemma handleLocationUpdate_newCell:
  "newCellVisited (handleLocationUpdate s p) = (latLngToCell p \<notin> visitedCells s)"
  "lastCellId (handleLocationUpdate s p) = latLngToCell p"
  by (simp_all add: handleLocationUpdate_def Let_def split: option.splits prod.splits)

lemma bufferResult_fields:
  "pendingCellsRef (bufferResult w r) =
     (if newCellVisited r \<and> lastCellId r \<notin> set (pendingCellsRef w)
      then pendingCellsRef w @ [lastCellId r] else pendingCellsRef w)"
  "clientIdRef (bufferResult w r) = clientIdRef w"
  "setDocCalls (bufferResult w r) = setDocCalls w"
  by (simp_all add: bufferResult_def Let_def)

lemma autoFlush_below: "length (pendingCellsRef w) < 10 \<Longrightarrow> autoFlush setDoc w = w"
  by (simp add: autoFlush_def)

lemma autoFlush_no_client: "clientIdRef w = None \<Longrightarrow> autoFlush setDoc w = w"
  by (simp add: autoFlush_def)

lemma autoFlush_client:
  assumes cid: "clientIdRef w = Some clientId" and ne: "clientId \<noteq> []"
      and full: "10 \<le> length (pendingCellsRef w)"
  shows "pendingCellsRef (autoFlush setDoc w) = []"
    and "pendingPointsRef (autoFlush setDoc w) = 0"
    and "clientIdRef (autoFlush setDoc w) = Some clientId"
    and "setDocCalls (autoFlush setDoc w) =
           setDocCalls w @
             [(clientId,
               \<lparr> sAccumulatedScore = (if mathRound (pendingPointsRef w) \<noteq> 0
                                       then Some (mathRound (pendingPointsRef w)) else None),
                 sMapGridIds = Some (spreadNewSet (pendingCellsRef w)) \<rparr>)]"
proof -
  from full have ne': "pendingCellsRef w \<noteq> []" by auto
  then have s: "spreadNewSet (pendingCellsRef w) \<noteq> [] \<or> 0 < pendingPointsRef w"
    by (simp add: spreadNewSet_Nil_iff)
  have "autoFlush setDoc w =
      catchSync (syncBatchToFirebase setDoc clientId (spreadNewSet (pendingCellsRef w))
                   (pendingPointsRef w) (w\<lparr> pendingCellsRef := [], pendingPointsRef := 0 \<rparr>))"
    using full cid ne by (simp add: autoFlush_def Let_def)
  then have af: "autoFlush setDoc w =
      (let data = \<lparr> sAccumulatedScore = (if mathRound (pendingPointsRef w) \<noteq> 0
                                       then Some (mathRound (pendingPointsRef w)) else None),
                 sMapGridIds = (if spreadNewSet (pendingCellsRef w) \<noteq> []
                                then Some (spreadNewSet (pendingCellsRef w)) else None) \<rparr>;
           w1 = w\<lparr> pendingCellsRef := [], pendingPointsRef := 0 \<rparr>
                 \<lparr> setDocCalls := setDocCalls (w\<lparr> pendingCellsRef := [], pendingPointsRef := 0 \<rparr>) @ [(clientId, data)] \<rparr>
       in catchSync (fst (setDoc clientId data w1), w1\<lparr> firestore := snd (setDoc clientId data w1) \<rparr>))"
    unfolding syncBatchToFirebase_issued [OF ne s] by (simp add: Let_def)
  show "pendingCellsRef (autoFlush setDoc w) = []"
    and "pendingPointsRef (autoFlush setDoc w) = 0"
    and "clientIdRef (autoFlush setDoc w) = Some clientId"
    and "setDocCalls (autoFlush setDoc w) =
           setDocCalls w @
             [(clientId,
               \<lparr> sAccumulatedScore = (if mathRound (pendingPointsRef w) \<noteq> 0
                                       then Some (mathRound (pendingPointsRef w)) else None),
                 sMapGridIds = Some (spreadNewSet (pendingCellsRef w)) \<rparr>)]"
    unfolding af using ne' cid by (simp_all add: Let_def catchSync_fields spreadNewSet_Nil_iff)
qed

lemma onLocationUpdate_fields:
  "trackingState (onLocationUpdate setDoc w p) = state (handleLocationUpdate (trackingState w) p)"
  "pendingCellsRef (onLocationUpdate setDoc w p) =
     pendingCellsRef (autoFlush setDoc (bufferResult w (handleLocationUpdate (trackingState w) p)))"
  "setDocCalls (onLocationUpdate setDoc w p) =
     setDocCalls (autoFlush setDoc (bufferResult w (handleLocationUpdate (trackingState w) p)))"
  "clientIdRef (onLocationUpdate setDoc w p) =
     clientIdRef (autoFlush setDoc (bufferResult w (handleLocationUpdate (trackingState w) p)))"
  by (simp_all add: onLocationUpdate_def Let_def)

text \<open>A run of fixes in new, distinct cells during which no flush happens.\<close>

lemma onLocationUpdates_no_flush:
  assumes "distinct (pendingCellsRef w @ map latLngToCell locs)"
      and "\<forall>q \<in> set locs. latLngToCell q \<notin> visitedCells (trackingState w)"
      and "length (pendingCellsRef w) + length locs < 10 \<or> clientIdRef w = None"
  shows "pendingCellsRef (onLocationUpdates setDoc w locs) = pendingCellsRef w @ map latLngToCell locs \<and>
         setDocCalls (onLocationUpdates setDoc w locs) = setDocCalls w \<and>
         clientIdRef (onLocationUpdates setDoc w locs) = clientIdRef w \<and>
         visitedCells (trackingState (onLocationUpdates setDoc w locs)) =
           visitedCells (trackingState w) \<union> set (map latLngToCell locs)"
  using assms
proof (induction locs arbitrary: w)
  case Nil
  then show ?case by (simp add: onLocationUpdates_def)
next
  case (Cons p ps)
  define r where "r = handleLocationUpdate (trackingState w) p"
  define w' where "w' = onLocationUpdate setDoc w p"
  have new: "newCellVisited r" "lastCellId r = latLngToCell p"
    using Cons.prems(2) by (simp_all add: r_def handleLocationUpdate_newCell)
  have notpend: "latLngToCell p \<notin> set (pendingCellsRef w)"
    using Cons.prems(1) by auto
  have b: "pendingCellsRef (bufferResult w r) = pendingCellsRef w @ [latLngToCell p]"
    using new notpend by (simp add: bufferResult_fields)
  have nf: "autoFlush setDoc (bufferResult w r) = bufferResult w r"
  proof (cases "clientIdRef w = None")
    case True
    then show ?thesis by (simp add: autoFlush_no_client bufferResult_fields)
  next
    case False
    with Cons.prems(3) have "length (pendingCellsRef w) + length (p # ps) < 10" by blast
    then show ?thesis by (simp add: autoFlush_below b)
  qed
  have p': "pendingCellsRef w' = pendingCellsRef w @ [latLngToCell p]"
    unfolding w'_def onLocationUpdate_fields r_def [symmetric] nf by (rule b)
  have c': "setDocCalls w' = setDocCalls w"
    and i': "clientIdRef w' = clientIdRef w"
    unfolding w'_def onLocationUpdate_fields r_def [symmetric] nf
    by (simp_all add: bufferResult_fields)
  have v': "visitedCells (trackingState w') = insert (latLngToCell p) (visitedCells (trackingState w))"
    by (simp add: w'_def onLocationUpdate_fields handleLocationUpdate_visited)
  have 1: "distinct (pendingCellsRef w' @ map latLngToCell ps)"
    using Cons.prems(1) by (simp add: p')
  have 2: "\<forall>q \<in> set ps. latLngToCell q \<notin> visitedCells (trackingState w')"
  proof
    fix q assume q: "q \<in> set ps"
    with Cons.prems(2) have "latLngToCell q \<notin> visitedCells (trackingState w)" by simp
    moreover from Cons.prems(1) have "latLngToCell p \<notin> latLngToCell ` set ps" by simp
    with q have "latLngToCell q \<noteq> latLngToCell p" by (metis imageI)
    ultimately show "latLngToCell q \<notin> visitedCells (trackingState w')" by (simp add: v')
  qed
  have 3: "length (pendingCellsRef w') + length ps < 10 \<or> clientIdRef w' = None"
    using Cons.prems(3) by (auto simp: p' i')
  from Cons.IH [OF 1 2 3]
  show ?case
    unfolding onLocationUpdates_def foldl_Cons w'_def [symmetric]
    unfolding onLocationUpdates_def [symmetric]
    by (auto simp: p' c' i' v')
qed

lemma onLocationUpdates_snoc:
  "onLocationUpdates setDoc w (ps @ [p]) = onLocationUpdate setDoc (onLocationUpdates setDoc w ps) p"
  by (simp add: onLocationUpdates_def)

lemma onLocationUpdate_flushes:
  assumes cid: "clientIdRef w = Some clientId" and ne: "clientId \<noteq> []"
      and full: "10 \<le> length (pendingCellsRef (bufferResult w (handleLocationUpdate (trackingState w) p)))"
  shows "pendingCellsRef (onLocationUpdate setDoc w p) = []"
    and "\<exists>data. setDocCalls (onLocationUpdate setDoc w p) = setDocCalls w @ [(clientId, data)] \<and>
           sMapGridIds data =
             Some (spreadNewSet (pendingCellsRef (bufferResult w (handleLocationUpdate (trackingState w) p))))"
proof -
  define b where "b = bufferResult w (handleLocationUpdate (trackingState w) p)"
  have cb: "clientIdRef b = Some clientId" by (simp add: b_def bufferResult_fields cid)
  have fb: "10 \<le> length (pendingCellsRef b)" using full by (simp add: b_def)
  show "pendingCellsRef (onLocationUpdate setDoc w p) = []"
    unfolding onLocationUpdate_fields b_def [symmetric] by (rule autoFlush_client(1) [OF cb ne fb])
  show "\<exists>data. setDocCalls (onLocationUpdate setDoc w p) = setDocCalls w @ [(clientId, data)] \<and>
           sMapGridIds data =
             Some (spreadNewSet (pendingCellsRef (bufferResult w (handleLocationUpdate (trackingState w) p))))"
    unfolding onLocationUpdate_fields b_def [symmetric] autoFlush_client(4) [OF cb ne fb]
    by (simp add: b_def bufferResult_fields)
qed

text \<open>
  Claim C5, as amended: while a client id is set. After a location update, if the list
  of pending cell ids has reached length 10, exactly one store call has been issued by
  that update and the pending list is empty; below 10 no store call is issued. Hence,
  starting from an empty buffer, after ten fixes in ten distinct cells not visited before,
  exactly one store call has been issued, it carries the ten cell ids, and the pending
  list is empty; after any shorter prefix of the run no call has been issued.
\<close>

theorem auto_flush_at_ten_with_client:
  assumes cid: "clientIdRef w = Some clientId" and ne: "clientId \<noteq> []"
  shows "(10 \<le> length (pendingCellsRef (bufferResult w (handleLocationUpdate (trackingState w) p))) \<longrightarrow>
            pendingCellsRef (onLocationUpdate setDoc w p) = [] \<and>
            length (setDocCalls (onLocationUpdate setDoc w p)) = Suc (length (setDocCalls w)))
       \<and> (length (pendingCellsRef (bufferResult w (handleLocationUpdate (trackingState w) p))) < 10 \<longrightarrow>
            setDocCalls (onLocationUpdate setDoc w p) = setDocCalls w)
       \<and> (pendingCellsRef w = [] \<and> length locs = 10 \<and> distinct (map latLngToCell locs) \<and>
            (\<forall>q \<in> set locs. latLngToCell q \<notin> visitedCells (trackingState w)) \<longrightarrow>
            pendingCellsRef (onLocationUpdates setDoc w locs) = [] \<and>
            (\<exists>data. setDocCalls (onLocationUpdates setDoc w locs) = setDocCalls w @ [(clientId, data)] \<and>
                    sMapGridIds data = Some (map latLngToCell locs)) \<and>
            (\<forall>k < 10. setDocCalls (onLocationUpdates setDoc w (take k locs)) = setDocCalls w \<and>
                      pendingCellsRef (onLocationUpdates setDoc w (take k locs)) =
                        map latLngToCell (take k locs)))"
proof (intro conjI impI)
  assume full: "10 \<le> length (pendingCellsRef (bufferResult w (handleLocationUpdate (trackingState w) p)))"
  show "pendingCellsRef (onLocationUpdate setDoc w p) = []"
    by (rule onLocationUpdate_flushes(1) [OF cid ne full])
  from onLocationUpdate_flushes(2) [OF cid ne full, of setDoc]
  show "length (setDocCalls (onLocationUpdate setDoc w p)) = Suc (length (setDocCalls w))"
    by auto
next
  assume "length (pendingCellsRef (bufferResult w (handleLocationUpdate (trackingState w) p))) < 10"
  then show "setDocCalls (onLocationUpdate setDoc w p) = setDocCalls w"
    by (simp add: onLocationUpdate_fields autoFlush_below bufferResult_fields)
next
  assume run: "pendingCellsRef w = [] \<and> length locs = 10 \<and> distinct (map latLngToCell locs) \<and>
            (\<forall>q \<in> set locs. latLngToCell q \<notin> visitedCells (trackingState w))"
  then have e: "pendingCellsRef w = []" and len: "length locs = 10"
    and dist: "distinct (map latLngToCell locs)"
    and unvisited: "\<forall>q \<in> set locs. latLngToCell q \<notin> visitedCells (trackingState w)"
    by simp_all
  have prefix: "pendingCellsRef (onLocationUpdates setDoc w (take k locs)) = map latLngToCell (take k locs) \<and>
         setDocCalls (onLocationUpdates setDoc w (take k locs)) = setDocCalls w \<and>
         clientIdRef (onLocationUpdates setDoc w (take k locs)) = clientIdRef w \<and>
         visitedCells (trackingState (onLocationUpdates setDoc w (take k locs))) =
           visitedCells (trackingState w) \<union> set (map latLngToCell (take k locs))"
    if k: "k < 10" for k
  proof -
    have 1: "distinct (pendingCellsRef w @ map latLngToCell (take k locs))"
      using dist by (simp add: e take_map [symmetric] distinct_take)
    have 2: "\<forall>q \<in> set (take k locs). latLngToCell q \<notin> visitedCells (trackingState w)"
      using unvisited by (meson in_set_takeD)
    have 3: "length (pendingCellsRef w) + length (take k locs) < 10 \<or> clientIdRef w = None"
      using k len by (simp add: e)
    from onLocationUpdates_no_flush [OF 1 2 3, of setDoc] show ?thesis by (simp add: e)
  qed
  define ps where "ps = take 9 locs"
  define q where "q = locs ! 9"
  define w9 where "w9 = onLocationUpdates setDoc w ps"
  have split: "locs = ps @ [q]"
  proof -
    have "take (Suc 9) locs = take 9 locs @ [locs ! 9]"
      using len by (intro take_Suc_conv_app_nth) simp
    moreover have "take (Suc 9) locs = locs" using len by simp
    ultimately show ?thesis by (simp add: ps_def q_def)
  qed
  from prefix [of 9] have p9: "pendingCellsRef w9 = map latLngToCell ps"
    and c9: "setDocCalls w9 = setDocCalls w"
    and i9: "clientIdRef w9 = Some clientId"
    and v9: "visitedCells (trackingState w9) = visitedCells (trackingState w) \<union> set (map latLngToCell ps)"
    by (simp_all add: w9_def ps_def cid)
  have qnew: "latLngToCell q \<notin> visitedCells (trackingState w9)"
    and qpend: "latLngToCell q \<notin> set (pendingCellsRef w9)"
    using dist unvisited unfolding split by (simp_all add: v9 p9)
  have b: "pendingCellsRef (bufferResult w9 (handleLocationUpdate (trackingState w9) q)) = map latLngToCell locs"
    using qnew qpend by (simp add: bufferResult_fields handleLocationUpdate_newCell p9 split)
  then have full: "10 \<le> length (pendingCellsRef (bufferResult w9 (handleLocationUpdate (trackingState w9) q)))"
    by (simp add: len)
  have fin: "onLocationUpdates setDoc w locs = onLocationUpdate setDoc w9 q"
    by (simp add: split onLocationUpdates_snoc w9_def)
  show "pendingCellsRef (onLocationUpdates setDoc w locs) = []"
    unfolding fin by (rule onLocationUpdate_flushes(1) [OF i9 ne full])
  from onLocationUpdate_flushes(2) [OF i9 ne full, of setDoc]
  show "\<exists>data. setDocCalls (onLocationUpdates setDoc w locs) = setDocCalls w @ [(clientId, data)] \<and>
                sMapGridIds data = Some (map latLngToCell locs)"
    unfolding fin b c9 by (simp add: spreadNewSet_distinct dist)
  show "\<forall>k < 10. setDocCalls (onLocationUpdates setDoc w (take k locs)) = setDocCalls w \<and>
                  pendingCellsRef (onLocationUpdates setDoc w (take k locs)) =
                    map latLngToCell (take k locs)"
    using prefix by blast
qed

lemma tenthFix_cell: "latLngToCell tenthFix = ''0_10''"
  by (simp add: tenthFix_def latLngToCell_def ORIGIN_def METERS_PER_DEG_LAT_def
        CELL_SIZE_METERS_def numberToString_def natDigits.simps digitChar_numeral Let_def)

theorem auto_flush_at_ten_with_client_witness:
  "clientIdRef ninePending = Some ''u1'' \<and>
   10 \<le> length (pendingCellsRef (bufferResult ninePending
           (handleLocationUpdate (trackingState ninePending) tenthFix))) \<and>
   pendingCellsRef (onLocationUpdate firestoreSetDoc ninePending tenthFix) = [] \<and>
   length (setDocCalls (onLocationUpdate firestoreSetDoc ninePending tenthFix)) = 1 \<and>
   clientIdRef (freshProvider (Some ''u1'')) = Some ''u1'' \<and>
   pendingCellsRef (freshProvider (Some ''u1'')) = [] \<and>
   length tenFixes = 10 \<and>
   distinct (map latLngToCell tenFixes) \<and>
   visitedCells (trackingState (freshProvider (Some ''u1''))) = {} \<and>
   pendingCellsRef (onLocationUpdates firestoreSetDoc (freshProvider (Some ''u1'')) tenFixes) = [] \<and>
   length (setDocCalls (onLocationUpdates firestoreSetDoc (freshProvider (Some ''u1'')) tenFixes)) = 1"
proof -
  let ?p = tenthFix
  let ?w = "freshProvider (Some ''u1'')"
  have c9: "clientIdRef ninePending = Some ''u1''"
    by (simp add: ninePending_def freshProvider_def)
  have ne: "''u1'' \<noteq> []" by simp
  have full: "10 \<le> length (pendingCellsRef (bufferResult ninePending
                 (handleLocationUpdate (trackingState ninePending) ?p)))"
    by (simp add: bufferResult_fields handleLocationUpdate_newCell tenthFix_cell
          ninePending_def freshProvider_def createInitialTrackingState_def)
  have s9: "setDocCalls ninePending = []"
    by (simp add: ninePending_def freshProvider_def)
  have c0: "clientIdRef ?w = Some ''u1''" and p0: "pendingCellsRef ?w = []"
    and v0: "visitedCells (trackingState ?w) = {}" and s0: "setDocCalls ?w = []"
    by (simp_all add: freshProvider_def createInitialTrackingState_def)
  have len: "length tenFixes = 10" by (simp add: tenFixes_def)
  have dist: "distinct (map latLngToCell tenFixes)" by (simp add: tenFixes_cells)
  have unv: "\<forall>q \<in> set tenFixes. latLngToCell q \<notin> visitedCells (trackingState ?w)"
    by (simp add: v0)
  from auto_flush_at_ten_with_client [OF c9 ne, of ?p firestoreSetDoc] full
  have one: "pendingCellsRef (onLocationUpdate firestoreSetDoc ninePending ?p) = []"
    "length (setDocCalls (onLocationUpdate firestoreSetDoc ninePending ?p)) = 1"
    by (simp_all add: s9)
  from auto_flush_at_ten_with_client [OF c0 ne, of _ firestoreSetDoc tenFixes] p0 len dist unv
  have "pendingCellsRef (onLocationUpdates firestoreSetDoc ?w tenFixes) = [] \<and>
        (\<exists>data. setDocCalls (onLocationUpdates firestoreSetDoc ?w tenFixes) =
                  setDocCalls ?w @ [(''u1'', data)] \<and>
                sMapGridIds data = Some (map latLngToCell tenFixes))"
    by blast
  then have run: "pendingCellsRef (onLocationUpdates firestoreSetDoc ?w tenFixes) = []"
    "length (setDocCalls (onLocationUpdates firestoreSetDoc ?w tenFixes)) = 1"
    by (auto simp: s0)
  from c9 full one c0 p0 len dist v0 run show ?thesis by blast
qed

text \<open>
  Claim C5 as stated fails when no client id is set (nobody is signed in): the guard
  \<^verbatim>\<open>if (clientId)\<close> skips the flush. After ten fixes in ten distinct new cells the
  pending list holds ten cell ids and no store call has been issued.
\<close>

theorem no_auto_flush_without_client:
  "clientIdRef (freshProvider None) = None \<and>
   pendingCellsRef (freshProvider None) = [] \<and>
   visitedCells (trackingState (freshProvider None)) = {} \<and>
   distinct (map latLngToCell tenFixes) \<and>
   length tenFixes = 10 \<and>
   pendingCellsRef (onLocationUpdates firestoreSetDoc (freshProvider None) tenFixes) =
     [''0_0'', ''0_1'', ''0_2'', ''0_3'', ''0_4'', ''0_5'', ''0_6'', ''0_7'', ''0_8'', ''0_10''] \<and>
   setDocCalls (onLocationUpdates firestoreSetDoc (freshProvider None) tenFixes) = []"
proof -
  let ?w = "freshProvider None"
  have c0: "clientIdRef ?w = None" and p0: "pendingCellsRef ?w = []"
    and v0: "visitedCells (trackingState ?w) = {}" and s0: "setDocCalls ?w = []"
    by (simp_all add: freshProvider_def createInitialTrackingState_def)
  have len: "length tenFixes = 10" by (simp add: tenFixes_def)
  have dist: "distinct (map latLngToCell tenFixes)" by (simp add: tenFixes_cells)
  have 1: "distinct (pendingCellsRef ?w @ map latLngToCell tenFixes)" using dist by (simp add: p0)
  have 2: "\<forall>q \<in> set tenFixes. latLngToCell q \<notin> visitedCells (trackingState ?w)" by (simp add: v0)
  have 3: "length (pendingCellsRef ?w) + length tenFixes < 10 \<or> clientIdRef ?w = None"
    using c0 by blast
  from onLocationUpdates_no_flush [OF 1 2 3, of firestoreSetDoc]
  have "pendingCellsRef (onLocationUpdates firestoreSetDoc ?w tenFixes) = map latLngToCell tenFixes"
    and "setDocCalls (onLocationUpdates firestoreSetDoc ?w tenFixes) = []"
    by (simp_all add: p0 s0)
  with c0 p0 v0 dist len show ?thesis by (simp add: tenFixes_cells)
qed

section \<open>Properties of the retry wrapper\<close>

lemma waitForRateLimit_fields:
  "fnCalls (waitForRateLimit st) = fnCalls st"
  "backoffDelays (waitForRateLimit st) = backoffDelays st"
  by (simp_all add: waitForRateLimit_def Let_def)

lemma backoff_fields:
  "fnCalls (backoff d st) = fnCalls st"
  "backoffDelays (backoff d st) = backoffDelays st @ [d]"
  by (simp_all add: backoff_def)

lemma retryLoop_always_retryable:
  "(\<forall>s. \<exists>e. fn s = Inl e \<and> \<not> messageIncludes e ''400'' \<and> \<not> messageIncludes e ''404'') \<Longrightarrow>
   fnCalls (snd (retryLoop fn maxRetries baseDelay attempt lastError st)) =
     fnCalls st + nat (maxRetries - int attempt) \<and>
   (\<exists>e. fst (retryLoop fn maxRetries baseDelay attempt lastError st) = Inl e)"
proof (induction fn maxRetries baseDelay attempt lastError st rule: retryLoop.induct)
  case (1 fn maxRetries baseDelay attempt lastError st)
  show ?case
  proof (cases "int attempt < maxRetries")
    case False
    then show ?thesis by (simp add: retryLoop.simps [of fn maxRetries baseDelay attempt])
  next
    case lt: True
    from "1.prems" obtain e where e: "fn (waitForRateLimit st) = Inl e"
      and n4: "\<not> (messageIncludes e ''400'' \<or> messageIncludes e ''404'')" by blast
    define st2 where "st2 = (waitForRateLimit st)\<lparr> fnCalls := Suc (fnCalls (waitForRateLimit st)) \<rparr>"
    have c2: "fnCalls st2 = Suc (fnCalls st)" by (simp add: st2_def waitForRateLimit_fields)
    show ?thesis
    proof (cases "messageIncludes e ''429''")
      case True
      define st3 where "st3 = (if int attempt < maxRetries - 1 then backoff (20000 * 3 ^ attempt) st2 else st2)"
      have c3: "fnCalls st3 = Suc (fnCalls st)" by (simp add: st3_def backoff_fields c2)
      have step: "retryLoop fn maxRetries baseDelay attempt lastError st =
                  retryLoop fn maxRetries baseDelay (Suc attempt) e st3"
        using lt e n4 True
        by (subst retryLoop.simps) (simp add: Let_def st2_def st3_def)
      from "1.IH"(1) [OF lt refl refl refl e n4 True "1.prems"]
      show ?thesis unfolding step st3_def [symmetric] st2_def [symmetric] using lt c3 by auto
    next
      case False
      define st3 where "st3 = (if int attempt < maxRetries - 1 then backoff (baseDelay * 2 ^ attempt) st2 else st2)"
      have c3: "fnCalls st3 = Suc (fnCalls st)" by (simp add: st3_def backoff_fields c2)
      have step: "retryLoop fn maxRetries baseDelay attempt lastError st =
                  retryLoop fn maxRetries baseDelay (Suc attempt) e st3"
        using lt e n4 False
        by (subst retryLoop.simps) (simp add: Let_def st2_def st3_def)
      from "1.IH"(2) [OF lt refl refl refl e n4 False "1.prems"]
      show ?thesis unfolding step st3_def [symmetric] st2_def [symmetric] using lt c3 by auto
    qed
  qed
qed

lemma messageIncludes_503:
  "\<not> messageIncludes (Error (Some ''503 Service Unavailable'')) ''400''"
  "\<not> messageIncludes (Error (Some ''503 Service Unavailable'')) ''404''"
  "\<not> messageIncludes (Error (Some ''503 Service Unavailable'')) ''429''"
  by (simp_all add: messageIncludes_def)

lemma messageIncludes_429:
  "\<not> messageIncludes (Error (Some ''429 Too Many Requests'')) ''400''"
  "\<not> messageIncludes (Error (Some ''429 Too Many Requests'')) ''404''"
  "messageIncludes (Error (Some ''429 Too Many Requests'')) ''429''"
  by (simp_all add: messageIncludes_def)

lemma messageIncludes_400:
  "messageIncludes (Error (Some ''400 Bad Request'')) ''400''"
  "messageIncludes (Error (Some ''404 Not Found'')) ''404''"
  by (simp_all add: messageIncludes_def)

lemma retryGenerateContent_unavailable_run:
  "retryGenerateContent (alwaysThrows ''503 Service Unavailable'') retryStart =
     (Inl (Error (Some ''503 Service Unavailable'')),
      \<lparr> now = 1010000, lastApiCallTime = 1010000, fnCalls = 2, rateLimitWaits = [],
        backoffDelays = [10000] \<rparr>)"
  by (simp add: retryGenerateContent_def retryWithBackoff_def retryLoop.simps alwaysThrows_def
        messageIncludes_503 waitForRateLimit_def backoff_def retryStart_def Let_def
        MIN_DELAY_BETWEEN_CALLS_MS_def)

lemma retryLoop_client_error:
  assumes "int attempt < maxRetries" and "fn (waitForRateLimit st) = Inl e"
      and "messageIncludes e ''400'' \<or> messageIncludes e ''404''"
  shows "retryLoop fn maxRetries baseDelay attempt lastError st =
           (Inl e, (waitForRateLimit st)\<lparr> fnCalls := Suc (fnCalls (waitForRateLimit st)) \<rparr>)"
  using assms by (subst retryLoop.simps) (simp add: Let_def)

lemma upt_from: "int attempt < maxRetries - 1 \<Longrightarrow>
    [attempt ..< nat (maxRetries - 1)] = attempt # [Suc attempt ..< nat (maxRetries - 1)]"
  by (simp add: upt_conv_Cons)

lemma upt_done: "\<not> int attempt < maxRetries - 1 \<Longrightarrow> [attempt ..< nat (maxRetries - 1)] = []"
  by simp

lemma upt_done_Suc: "\<not> int attempt < maxRetries - 1 \<Longrightarrow> [Suc attempt ..< nat (maxRetries - 1)] = []"
  by simp

lemma retryLoop_delays_429:
  "(\<forall>s. \<exists>e. fn s = Inl e \<and> \<not> messageIncludes e ''400'' \<and> \<not> messageIncludes e ''404''
            \<and> messageIncludes e ''429'') \<Longrightarrow>
   backoffDelays (snd (retryLoop fn maxRetries baseDelay attempt lastError st)) =
     backoffDelays st @ map (\<lambda>k. 20000 * 3 ^ k) [attempt ..< nat (maxRetries - 1)]"
proof (induction fn maxRetries baseDelay attempt lastError st rule: retryLoop.induct)
  case (1 fn maxRetries baseDelay attempt lastError st)
  show ?case
  proof (cases "int attempt < maxRetries")
    case False
    then show ?thesis by (simp add: retryLoop.simps [of fn maxRetries baseDelay attempt])
  next
    case lt: True
    from "1.prems" obtain e where e: "fn (waitForRateLimit st) = Inl e"
      and n4: "\<not> (messageIncludes e ''400'' \<or> messageIncludes e ''404'')"
      and r: "messageIncludes e ''429''" by blast
    define st2 where "st2 = (waitForRateLimit st)\<lparr> fnCalls := Suc (fnCalls (waitForRateLimit st)) \<rparr>"
    have b2: "backoffDelays st2 = backoffDelays st" by (simp add: st2_def waitForRateLimit_fields)
    define st3 where "st3 = (if int attempt < maxRetries - 1 then backoff (20000 * 3 ^ attempt) st2 else st2)"
    have step: "retryLoop fn maxRetries baseDelay attempt lastError st =
                retryLoop fn maxRetries baseDelay (Suc attempt) e st3"
      using lt e n4 r by (subst retryLoop.simps) (simp add: Let_def st2_def st3_def)
    note ih = "1.IH"(1) [OF lt refl refl refl e n4 r "1.prems", unfolded st2_def [symmetric] st3_def [symmetric]]
    show ?thesis
    proof (cases "int attempt < maxRetries - 1")
      case True
      then have "backoffDelays st3 = backoffDelays st @ [20000 * 3 ^ attempt]"
        by (simp add: st3_def backoff_fields b2)
      with ih show ?thesis unfolding step upt_from [OF True] by simp
    next
      case False
      then have "backoffDelays st3 = backoffDelays st" by (simp add: st3_def b2)
      with ih show ?thesis unfolding step upt_done [OF False] upt_done_Suc [OF False] by simp
    qed
  qed
qed

lemma retryLoop_delays_other:
  "(\<forall>s. \<exists>e. fn s = Inl e \<and> \<not> messageIncludes e ''400'' \<and> \<not> messageIncludes e ''404''
            \<and> \<not> messageIncludes e ''429'') \<Longrightarrow>
   backoffDelays (snd (retryLoop fn maxRetries baseDelay attempt lastError st)) =
     backoffDelays st @ map (\<lambda>k. baseDelay * 2 ^ k) [attempt ..< nat (maxRetries - 1)]"
proof (induction fn maxRetries baseDelay attempt lastError st rule: retryLoop.induct)
  case (1 fn maxRetries baseDelay attempt lastError st)
  show ?case
  proof (cases "int attempt < maxRetries")
    case False
    then show ?thesis by (simp add: retryLoop.simps [of fn maxRetries baseDelay attempt])
  next
    case lt: True
    from "1.prems" obtain e where e: "fn (waitForRateLimit st) = Inl e"
      and n4: "\<not> (messageIncludes e ''400'' \<or> messageIncludes e ''404'')"
      and r: "\<not> messageIncludes e ''429''" by blast
    define st2 where "st2 = (waitForRateLimit st)\<lparr> fnCalls := Suc (fnCalls (waitForRateLimit st)) \<rparr>"
    have b2: "backoffDelays st2 = backoffDelays st" by (simp add: st2_def waitForRateLimit_fields)
    define st3 where "st3 = (if int attempt < maxRetries - 1 then backoff (baseDelay * 2 ^ attempt) st2 else st2)"
    have step: "retryLoop fn maxRetries baseDelay attempt lastError st =
                retryLoop fn maxRetries baseDelay (Suc attempt) e st3"
      using lt e n4 r by (subst retryLoop.simps) (simp add: Let_def st2_def st3_def)
    note ih = "1.IH"(2) [OF lt refl refl refl e n4 r "1.prems", unfolded st2_def [symmetric] st3_def [symmetric]]
    show ?thesis
    proof (cases "int attempt < maxRetries - 1")
      case True
      then have "backoffDelays st3 = backoffDelays st @ [baseDelay * 2 ^ attempt]"
        by (simp add: st3_def backoff_fields b2)
      with ih show ?thesis unfolding step upt_from [OF True] by simp
    next
      case False
      then have "backoffDelays st3 = backoffDelays st" by (simp add: st3_def b2)
      with ih show ?thesis unfolding step upt_done [OF False] upt_done_Suc [OF False] by simp
    qed
  qed
qed

text \<open>With three attempts the delays would be the ones the comments announce.\<close>

lemma retryWithBackoff_three_attempts:
  "(\<forall>s. \<exists>e. fn s = Inl e \<and> \<not> messageIncludes e ''400'' \<and> \<not> messageIncludes e ''404''
            \<and> messageIncludes e ''429'') \<Longrightarrow>
   backoffDelays (snd (retryWithBackoff fn 3 10000 st)) = backoffDelays st @ [20000, 60000]"
  "(\<forall>s. \<exists>e. fn s = Inl e \<and> \<not> messageIncludes e ''400'' \<and> \<not> messageIncludes e ''404''
            \<and> \<not> messageIncludes e ''429'') \<Longrightarrow>
   backoffDelays (snd (retryWithBackoff fn 3 10000 st)) = backoffDelays st @ [10000, 20000]"
  by (simp_all add: retryWithBackoff_def retryLoop_delays_429 retryLoop_delays_other upt_rec)

text \<open>
  Claim C2 says that a call which fails on every attempt with a retryable error is invoked
  three times (up to 2 retries), as the comments at \<open>retryWithBackoff\<close> and at its call
  site say too. The loop \<^verbatim>\<open>for (attempt = 0; attempt < maxRetries; attempt++)\<close> with
  \<open>maxRetries = 2\<close> makes two attempts: for every such call and every state, the wrapper
  as \<open>compareImages\<close> uses it invokes the call exactly twice and then fails.
\<close>

theorem retryGenerateContent_invokes_twice:
  assumes "\<forall>s. \<exists>e. fn s = Inl e \<and> \<not> messageIncludes e ''400'' \<and> \<not> messageIncludes e ''404''"
  shows "fnCalls (snd (retryGenerateContent fn st)) = fnCalls st + 2 \<and>
         (\<exists>e. fst (retryGenerateContent fn st) = Inl e)"
  using retryLoop_always_retryable [OF assms, of 2 10000 0 Undefined st]
  by (simp add: retryGenerateContent_def retryWithBackoff_def)

theorem retryGenerateContent_invokes_twice_witness:
  "fnCalls (snd (retryGenerateContent (alwaysThrows ''503 Service Unavailable'') retryStart)) = 2 \<and>
   fst (retryGenerateContent (alwaysThrows ''503 Service Unavailable'') retryStart) =
     Inl (Error (Some ''503 Service Unavailable''))"
proof -
  have h: "\<forall>s. \<exists>e. alwaysThrows ''503 Service Unavailable'' s = Inl e \<and>
             \<not> messageIncludes e ''400'' \<and> \<not> messageIncludes e ''404''"
    by (simp add: alwaysThrows_def messageIncludes_503)
  from retryGenerateContent_invokes_twice [OF h, of retryStart]
  have "fnCalls (snd (retryGenerateContent (alwaysThrows ''503 Service Unavailable'') retryStart)) = 2"
    by (simp add: retryStart_def)
  then show ?thesis by (simp add: retryGenerateContent_unavailable_run)
qed

text \<open>
  Claim C8 says that errors naming 400 or 404 are thrown at once, that errors naming 429
  are retried after 20 s and then 60 s, and all others after 10 s and then 20 s. In the
  wrapper as \<open>compareImages\<close> uses it: an error naming 400 or 404 is thrown at once, after
  one invocation and with no backoff; a call that always fails with 429 is followed by
  the single backoff of 20 s, and one that always fails otherwise by the single backoff of
  10 s. The second delay of either sequence (60 s, 20 s) is never waited for, since the
  loop makes two attempts only.
\<close>

theorem retryGenerateContent_single_backoff:
  "(fn (waitForRateLimit st) = Inl e \<and> (messageIncludes e ''400'' \<or> messageIncludes e ''404'') \<longrightarrow>
      fst (retryGenerateContent fn st) = Inl e \<and>
      fnCalls (snd (retryGenerateContent fn st)) = Suc (fnCalls st) \<and>
      backoffDelays (snd (retryGenerateContent fn st)) = backoffDelays st) \<and>
   ((\<forall>s. \<exists>e. fn s = Inl e \<and> \<not> messageIncludes e ''400'' \<and> \<not> messageIncludes e ''404''
             \<and> messageIncludes e ''429'') \<longrightarrow>
      backoffDelays (snd (retryGenerateContent fn st)) = backoffDelays st @ [20000]) \<and>
   ((\<forall>s. \<exists>e. fn s = Inl e \<and> \<not> messageIncludes e ''400'' \<and> \<not> messageIncludes e ''404''
             \<and> \<not> messageIncludes e ''429'') \<longrightarrow>
      backoffDelays (snd (retryGenerateContent fn st)) = backoffDelays st @ [10000])"
proof (intro conjI impI)
  assume a: "fn (waitForRateLimit st) = Inl e \<and> (messageIncludes e ''400'' \<or> messageIncludes e ''404'')"
  have lt: "int 0 < 2" by simp
  from a have eq: "retryGenerateContent fn st =
      (Inl e, (waitForRateLimit st)\<lparr> fnCalls := Suc (fnCalls (waitForRateLimit st)) \<rparr>)"
    unfolding retryGenerateContent_def retryWithBackoff_def
    by (intro retryLoop_client_error [OF lt]) simp_all
  show "fst (retryGenerateContent fn st) = Inl e"
    and "fnCalls (snd (retryGenerateContent fn st)) = Suc (fnCalls st)"
    and "backoffDelays (snd (retryGenerateContent fn st)) = backoffDelays st"
    unfolding eq by (simp_all add: waitForRateLimit_fields)
next
  assume "\<forall>s. \<exists>e. fn s = Inl e \<and> \<not> messageIncludes e ''400'' \<and> \<not> messageIncludes e ''404''
             \<and> messageIncludes e ''429''"
  then show "backoffDelays (snd (retryGenerateContent fn st)) = backoffDelays st @ [20000]"
    by (simp add: retryGenerateContent_def retryWithBackoff_def retryLoop_delays_429 upt_rec)
next
  assume "\<forall>s. \<exists>e. fn s = Inl e \<and> \<not> messageIncludes e ''400'' \<and> \<not> messageIncludes e ''404''
             \<and> \<not> messageIncludes e ''429''"
  then show "backoffDelays (snd (retryGenerateContent fn st)) = backoffDelays st @ [10000]"
    by (simp add: retryGenerateContent_def retryWithBackoff_def retryLoop_delays_other upt_rec)
qed

theorem retryGenerateContent_single_backoff_witness:
  "fst (retryGenerateContent (alwaysThrows ''400 Bad Request'') retryStart) =
     Inl (Error (Some ''400 Bad Request'')) \<and>
   fnCalls (snd (retryGenerateContent (alwaysThrows ''400 Bad Request'') retryStart)) = 1 \<and>
   backoffDelays (snd (retryGenerateContent (alwaysThrows ''400 Bad Request'') retryStart)) = [] \<and>
   backoffDelays (snd (retryGenerateContent (alwaysThrows ''429 Too Many Requests'') retryStart)) = [20000] \<and>
   backoffDelays (snd (retryGenerateContent (alwaysThrows ''503 Service Unavailable'') retryStart)) = [10000]"
proof -
  have b0: "backoffDelays retryStart = []" and f0: "fnCalls retryStart = 0"
    by (simp_all add: retryStart_def)
  have h400: "alwaysThrows ''400 Bad Request'' (waitForRateLimit retryStart) = Inl (Error (Some ''400 Bad Request''))
      \<and> (messageIncludes (Error (Some ''400 Bad Request'')) ''400'' \<or>
         messageIncludes (Error (Some ''400 Bad Request'')) ''404'')"
    by (simp add: alwaysThrows_def messageIncludes_400)
  have h429: "\<forall>s. \<exists>e. alwaysThrows ''429 Too Many Requests'' s = Inl e \<and>
             \<not> messageIncludes e ''400'' \<and> \<not> messageIncludes e ''404'' \<and> messageIncludes e ''429''"
    by (simp add: alwaysThrows_def messageIncludes_429)
  have h503: "\<forall>s. \<exists>e. alwaysThrows ''503 Service Unavailable'' s = Inl e \<and>
             \<not> messageIncludes e ''400'' \<and> \<not> messageIncludes e ''404'' \<and> \<not> messageIncludes e ''429''"
    by (simp add: alwaysThrows_def messageIncludes_503)
  from retryGenerateContent_single_backoff
         [of "alwaysThrows ''400 Bad Request''" retryStart "Error (Some ''400 Bad Request'')"] h400
  have 1: "fst (retryGenerateContent (alwaysThrows ''400 Bad Request'') retryStart) =
             Inl (Error (Some ''400 Bad Request''))"
    "fnCalls (snd (retryGenerateContent (alwaysThrows ''400 Bad Request'') retryStart)) = 1"
    "backoffDelays (snd (retryGenerateContent (alwaysThrows ''400 Bad Request'') retryStart)) = []"
    by (simp_all add: b0 f0)
  from retryGenerateContent_single_backoff
         [of "alwaysThrows ''429 Too Many Requests''" retryStart] h429
  have 2: "backoffDelays (snd (retryGenerateContent (alwaysThrows ''429 Too Many Requests'') retryStart)) = [20000]"
    by (simp add: b0)
  from retryGenerateContent_single_backoff
         [of "alwaysThrows ''503 Service Unavailable''" retryStart] h503
  have 3: "backoffDelays (snd (retryGenerateContent (alwaysThrows ''503 Service Unavailable'') retryStart)) = [10000]"
    by (simp add: b0)
  from 1 2 3 show ?thesis by simp
qed

section \<open>Properties of the quest matcher\<close>

lemma compareLoop_keeps_Some:
  "\<exists>b'. compareLoop compareImages u qs (Some b) = Some b'"
proof (induction qs arbitrary: b)
  case Nil
  then show ?case by simp
next
  case (Cons q qs)
  then show ?case by (auto split: sum.splits prod.splits)
qed

lemma compareLoop_None_iff:
  "compareLoop compareImages u qs best = None \<longleftrightarrow>
     best = None \<and>
     (\<forall>q \<in> set qs. imageUrl q = [] \<or>
        (\<forall>r. compareImages u (imageUrl q) (description q) = Inr r \<longrightarrow>
             \<not> (isMatch r \<and> confidence r \<ge> CONFIDENCE_THRESHOLD)))"
proof (induction qs arbitrary: best)
  case Nil
  then show ?case by simp
next
  case (Cons q qs)
  show ?case
  proof (cases "imageUrl q = []")
    case True
    then show ?thesis by (simp add: Cons.IH)
  next
    case False
    show ?thesis
    proof (cases "compareImages u (imageUrl q) (description q)")
      case (Inl e)
      with False show ?thesis by (simp add: Cons.IH)
    next
      case (Inr r)
      show ?thesis
      proof (cases best)
        case None
        with False Inr show ?thesis
          using compareLoop_keeps_Some [of compareImages u qs "(q, r)"]
          by (auto simp: Cons.IH)
      next
        case (Some b)
        then show ?thesis
          using compareLoop_keeps_Some [of compareImages u "q # qs" b] by auto
      qed
    qed
  qed
qed

lemma compareLoop_Some:
  "compareLoop compareImages u qs best = Some (bq, br) \<Longrightarrow>
     best = Some (bq, br) \<or>
     (bq \<in> set qs \<and> imageUrl bq \<noteq> [] \<and>
      compareImages u (imageUrl bq) (description bq) = Inr br \<and>
      isMatch br \<and> confidence br \<ge> CONFIDENCE_THRESHOLD)"
proof (induction qs arbitrary: best)
  case Nil
  then show ?case by simp
next
  case (Cons q qs)
  show ?case
  proof (cases "imageUrl q = []")
    case True
    with Cons.prems have "compareLoop compareImages u qs best = Some (bq, br)" by simp
    from Cons.IH [OF this] show ?thesis by auto
  next
    case False
    show ?thesis
    proof (cases "compareImages u (imageUrl q) (description q)")
      case (Inl e)
      with False Cons.prems have "compareLoop compareImages u qs best = Some (bq, br)" by simp
      from Cons.IH [OF this] show ?thesis by auto
    next
      case (Inr r)
      show ?thesis
      proof (cases "isMatch r \<and> confidence r \<ge> CONFIDENCE_THRESHOLD \<and>
                    (case best of None \<Rightarrow> True | Some (bq', br') \<Rightarrow> confidence r > confidence br')")
        case True
        with False Inr Cons.prems
        have "compareLoop compareImages u qs (Some (q, r)) = Some (bq, br)" by simp
        from Cons.IH [OF this] False Inr True show ?thesis by auto
      next
        case no: False
        with False Inr Cons.prems
        have "compareLoop compareImages u qs best = Some (bq, br)" by auto
        from Cons.IH [OF this] show ?thesis by auto
      qed
    qed
  qed
qed

lemma compareLoop_single:
  assumes "imageUrl quest \<noteq> []"
      and "compareImages u (imageUrl quest) (description quest) = Inr r"
  shows "compareLoop compareImages u [quest] None =
           (if isMatch r \<and> confidence r \<ge> 90 then Some (quest, r) else None)"
  using assms by (simp add: CONFIDENCE_THRESHOLD_def)

lemma findMatchingQuest_candidates:
  assumes quests: "getAllImageQuests db = Inr allQuests"
      and client: "getDoc db clientId = Inr clientDoc"
      and cands: "filter (\<lambda>q. questId q \<notin> set (solvedIdsOf clientDoc))
                    (nearbyQuests userLocation allQuests) = cands"
      and some: "cands \<noteq> []"
  shows "findMatchingQuest compareImages db userImageUri userLocation clientId =
           (case compareLoop compareImages userImageUri cands None of
              None \<Rightarrow> Inr (noQuest ''Nu s-a gasit niciun quest potrivit in aceasta zona'')
            | Some (bq, br) \<Rightarrow>
                Inr \<lparr> mQuest = Some bq,
                      mComparisonResult = br\<lparr> matchedQuestId := Some (questId bq) \<rparr> \<rparr>)"
proof -
  from cands some have ne: "nearbyQuests userLocation allQuests \<noteq> []" by auto
  show ?thesis
    using ne some by (simp add: findMatchingQuest_def quests client cands Let_def)
qed

text \<open>
  Claim C3. With the quests and the client document read, and a non-empty list of
  candidates (in range, not solved): the matcher returns a quest exactly when some
  candidate with a reference image gets an oracle result with \<open>isMatch\<close> true and
  \<open>confidence \<ge> 90\<close>. With a single candidate whose oracle result is \<open>r\<close>, the outcome
  is the match with that candidate when \<open>isMatch r\<close> and \<open>confidence r \<ge> 90\<close>, and
  "no-match" otherwise; so confidence 89 gives "no-match" and confidence 90 a match.
\<close>

theorem findMatchingQuest_threshold:
  assumes quests: "getAllImageQuests db = Inr allQuests"
      and client: "getDoc db clientId = Inr clientDoc"
      and cands: "filter (\<lambda>q. questId q \<notin> set (solvedIdsOf clientDoc))
                    (nearbyQuests userLocation allQuests) = cands"
      and some: "cands \<noteq> []"
  shows "(\<exists>found. findMatchingQuest compareImages db userImageUri userLocation clientId = Inr found \<and>
            (mQuest found \<noteq> None \<longleftrightarrow>
               (\<exists>q \<in> set cands. imageUrl q \<noteq> [] \<and>
                  (\<exists>r. compareImages userImageUri (imageUrl q) (description q) = Inr r \<and>
                       isMatch r \<and> confidence r \<ge> 90)))) \<and>
         (cands = [quest] \<and> imageUrl quest \<noteq> [] \<and>
          compareImages userImageUri (imageUrl quest) (description quest) = Inr r \<longrightarrow>
            findMatchingQuest compareImages db userImageUri userLocation clientId =
              (if isMatch r \<and> confidence r \<ge> 90
               then Inr \<lparr> mQuest = Some quest,
                          mComparisonResult = r\<lparr> matchedQuestId := Some (questId quest) \<rparr> \<rparr>
               else Inr (noQuest ''Nu s-a gasit niciun quest potrivit in aceasta zona'')))"
proof (intro conjI impI)
  note fm = findMatchingQuest_candidates [OF quests client cands some, of compareImages userImageUri]
  show "\<exists>found. findMatchingQuest compareImages db userImageUri userLocation clientId = Inr found \<and>
            (mQuest found \<noteq> None \<longleftrightarrow>
               (\<exists>q \<in> set cands. imageUrl q \<noteq> [] \<and>
                  (\<exists>r. compareImages userImageUri (imageUrl q) (description q) = Inr r \<and>
                       isMatch r \<and> confidence r \<ge> 90)))"
  proof (cases "compareLoop compareImages userImageUri cands None")
    case None
    then have "\<forall>q \<in> set cands. imageUrl q = [] \<or>
        (\<forall>r. compareImages userImageUri (imageUrl q) (description q) = Inr r \<longrightarrow>
             \<not> (isMatch r \<and> confidence r \<ge> CONFIDENCE_THRESHOLD))"
      by (simp add: compareLoop_None_iff)
    then have "\<not> (\<exists>q \<in> set cands. imageUrl q \<noteq> [] \<and>
                  (\<exists>r. compareImages userImageUri (imageUrl q) (description q) = Inr r \<and>
                       isMatch r \<and> confidence r \<ge> 90))"
      unfolding CONFIDENCE_THRESHOLD_def by blast
    then show ?thesis unfolding fm None by (simp add: noQuest_def)
  next
    case (Some b)
    obtain bq br where b: "b = (bq, br)" by (cases b)
    from compareLoop_Some [of compareImages userImageUri cands None bq br] Some b
    have "bq \<in> set cands \<and> imageUrl bq \<noteq> [] \<and>
          compareImages userImageUri (imageUrl bq) (description bq) = Inr br \<and>
          isMatch br \<and> confidence br \<ge> 90"
      by (simp add: CONFIDENCE_THRESHOLD_def)
    then have "\<exists>q \<in> set cands. imageUrl q \<noteq> [] \<and>
                  (\<exists>r. compareImages userImageUri (imageUrl q) (description q) = Inr r \<and>
                       isMatch r \<and> confidence r \<ge> 90)"
      by blast
    then show ?thesis unfolding fm Some b by simp
  qed
next
  assume a: "cands = [quest] \<and> imageUrl quest \<noteq> [] \<and>
          compareImages userImageUri (imageUrl quest) (description quest) = Inr r"
  then have c: "cands = [quest]" and image: "imageUrl quest \<noteq> []"
    and answer: "compareImages userImageUri (imageUrl quest) (description quest) = Inr r"
    by simp_all
  note fm = findMatchingQuest_candidates [OF quests client cands some, of compareImages userImageUri]
  show "findMatchingQuest compareImages db userImageUri userLocation clientId =
              (if isMatch r \<and> confidence r \<ge> 90
               then Inr \<lparr> mQuest = Some quest,
                          mComparisonResult = r\<lparr> matchedQuestId := Some (questId quest) \<rparr> \<rparr>
               else Inr (noQuest ''Nu s-a gasit niciun quest potrivit in aceasta zona''))"
    unfolding fm c compareLoop_single [of quest compareImages userImageUri r, OF image answer]
    by simp
qed

lemma questStore_quests: "getAllImageQuests (questStore d) = Inr [quest1]"
  by (simp add: getAllImageQuests_def questStore_def quest1Doc_def quest1_def questOfDoc_def
        orString_def orNumber_def)

lemma quest1_nearby: "nearbyQuests ORIGIN [quest1] = [quest1]"
  by (simp add: nearbyQuests_def quest1_def ORIGIN_def haversineDistance_same Let_def)

theorem findMatchingQuest_threshold_witness:
  "getAllImageQuests (questStore (clientWith [] 0)) = Inr [quest1] \<and>
   getDoc (questStore (clientWith [] 0)) ''u1'' = Inr (Some (clientWith [] 0)) \<and>
   filter (\<lambda>q. questId q \<notin> set (solvedIdsOf (Some (clientWith [] 0))))
     (nearbyQuests ORIGIN [quest1]) = [quest1] \<and>
   findMatchingQuest (oracleSays 89) (questStore (clientWith [] 0)) ''photo.jpg'' ORIGIN ''u1'' =
     Inr (noQuest ''Nu s-a gasit niciun quest potrivit in aceasta zona'') \<and>
   findMatchingQuest (oracleSays 90) (questStore (clientWith [] 0)) ''photo.jpg'' ORIGIN ''u1'' =
     Inr \<lparr> mQuest = Some quest1,
           mComparisonResult = \<lparr> isMatch = True, confidence = 90, reasoning = ''same landmark'',
                                 matchedQuestId = Some ''q1'' \<rparr> \<rparr>"
proof -
  let ?db = "questStore (clientWith [] 0)"
  have q: "getAllImageQuests ?db = Inr [quest1]" by (rule questStore_quests)
  have c: "getDoc ?db ''u1'' = Inr (Some (clientWith [] 0))"
    by (simp add: getDoc_def questStore_def)
  have f: "filter (\<lambda>q. questId q \<notin> set (solvedIdsOf (Some (clientWith [] 0))))
             (nearbyQuests ORIGIN [quest1]) = [quest1]"
    by (simp add: quest1_nearby solvedIdsOf_def clientWith_def)
  have ne: "[quest1] \<noteq> []" by simp
  have img: "imageUrl quest1 \<noteq> []" by (simp add: quest1_def)
  have a89: "oracleSays 89 ''photo.jpg'' (imageUrl quest1) (description quest1) =
      Inr \<lparr> isMatch = True, confidence = 89, reasoning = ''same landmark'', matchedQuestId = None \<rparr>"
    by (simp add: oracleSays_def)
  have a90: "oracleSays 90 ''photo.jpg'' (imageUrl quest1) (description quest1) =
      Inr \<lparr> isMatch = True, confidence = 90, reasoning = ''same landmark'', matchedQuestId = None \<rparr>"
    by (simp add: oracleSays_def)
  from findMatchingQuest_threshold [OF q c f ne, of "oracleSays 89" "''photo.jpg''" quest1] img a89
  have 1: "findMatchingQuest (oracleSays 89) ?db ''photo.jpg'' ORIGIN ''u1'' =
     Inr (noQuest ''Nu s-a gasit niciun quest potrivit in aceasta zona'')"
    by simp
  from findMatchingQuest_threshold [OF q c f ne, of "oracleSays 90" "''photo.jpg''" quest1] img a90
  have 2: "findMatchingQuest (oracleSays 90) ?db ''photo.jpg'' ORIGIN ''u1'' =
     Inr \<lparr> mQuest = Some quest1,
           mComparisonResult = \<lparr> isMatch = True, confidence = 90, reasoning = ''same landmark'',
                                 matchedQuestId = Some ''q1'' \<rparr> \<rparr>"
    by (simp add: quest1_def)
  from q c f 1 2 show ?thesis by blast
qed

subsection \<open>The commit\<close>

lemma arrayUnion_single:
  "arrayUnion old [x] =
     (let xs = (case old of None \<Rightarrow> [] | Some xs \<Rightarrow> xs) in if x \<in> set xs then xs else xs @ [x])"
  by (simp add: arrayUnion_def Let_def)

lemma arrayUnion_single_member: "x \<in> set (arrayUnion old [x])"
  by (simp add: arrayUnion_single Let_def)

lemma arrayUnion_single_idem: "arrayUnion (Some (arrayUnion old [x])) [x] = arrayUnion old [x]"
  by (simp add: arrayUnion_single Let_def)

lemma markQuestAsSolved_Inr:
  assumes "markQuestAsSolved db clientId qid pts = Inr db'"
  shows "\<exists>d. clients db clientId = Some d \<and> reachable db \<and>
           db' = db\<lparr> clients := (clients db)(clientId \<mapsto>
                    d\<lparr> imageQuestSolvedIds := Some (arrayUnion (imageQuestSolvedIds d) [qid]),
                       accumulatedScore := Some (increment (accumulatedScore d) pts) \<rparr>) \<rparr>"
  using assms by (auto simp: markQuestAsSolved_def split: if_splits option.splits)

lemma findMatchingQuest_selects_unsolved:
  assumes found: "findMatchingQuest compareImages db userImageUri userLocation clientId = Inr found"
      and quest: "mQuest found = Some quest"
  shows "questId quest \<notin> set (solvedIdsOf (clients db clientId))"
proof -
  from found obtain allQuests where q: "getAllImageQuests db = Inr allQuests"
    by (cases "getAllImageQuests db") (simp_all add: findMatchingQuest_def)
  then have r: "reachable db" by (simp add: getAllImageQuests_def split: if_splits)
  then have c: "getDoc db clientId = Inr (clients db clientId)" by (simp add: getDoc_def)
  define cands where "cands = filter (\<lambda>q. questId q \<notin> set (solvedIdsOf (clients db clientId)))
                    (nearbyQuests userLocation allQuests)"
  have ne: "cands \<noteq> []"
  proof
    assume "cands = []"
    with found q c have "mQuest found = None"
      by (auto simp: findMatchingQuest_def Let_def cands_def noQuest_def split: if_splits)
    with quest show False by simp
  qed
  note fm = findMatchingQuest_candidates [OF q c cands_def [symmetric] ne, of compareImages userImageUri]
  from found quest obtain br where "compareLoop compareImages userImageUri cands None = Some (quest, br)"
    unfolding fm by (auto simp: noQuest_def split: option.splits prod.splits)
  from compareLoop_Some [OF this] have "quest \<in> set cands" by simp
  then show ?thesis by (simp add: cands_def)
qed

lemma markQuestAsSolved_questStore:
  "markQuestAsSolved (questStore (clientWith solved sc)) ''u1'' qid pts =
     Inr (questStore (clientWith (if qid \<in> set solved then solved else solved @ [qid]) (sc + pts)))"
  by (simp add: markQuestAsSolved_def questStore_def clientWith_def arrayUnion_single increment_def
        Let_def)

subsection \<open>The whole submission\<close>

text \<open>
  A submission commits the score of the quest, not the confidence of the oracle, and it
  commits whenever \<open>findMatchingQuest\<close> returns a quest.
\<close>

lemma submitQuestImage_commits_quest_score:
  assumes "findMatchingQuest compareImages db userImageUri userLocation clientId = Inr found"
      and "mQuest found = Some quest"
      and "isMatch (mComparisonResult found)"
  shows "submitQuestImage compareImages db userImageUri userLocation clientId =
           (case markQuestAsSolved db clientId (questId quest) (score quest) of
              Inl err \<Rightarrow> Inl (Error (Some ''Nu s-a putut trimite imaginea pentru quest''))
            | Inr db' \<Rightarrow>
                Inr (\<lparr> success = True, sQuest = Some quest, sResult = mComparisonResult found,
                       sPointsEarned = Some (score quest) \<rparr>, db'))"
  using assms by (simp add: submitQuestImage_def Let_def)

lemma findMatchingQuest_unsolved_example:
  "findMatchingQuest (oracleSays 90) (questStore (clientWith [] 0)) ''photo.jpg'' ORIGIN ''u1'' =
     Inr \<lparr> mQuest = Some quest1,
           mComparisonResult = \<lparr> isMatch = True, confidence = 90, reasoning = ''same landmark'',
                                 matchedQuestId = Some ''q1'' \<rparr> \<rparr>"
proof -
  let ?db = "questStore (clientWith [] 0)"
  have q: "getAllImageQuests ?db = Inr [quest1]" by (rule questStore_quests)
  have c: "getDoc ?db ''u1'' = Inr (Some (clientWith [] 0))"
    by (simp add: getDoc_def questStore_def)
  have f: "filter (\<lambda>q. questId q \<notin> set (solvedIdsOf (Some (clientWith [] 0))))
             (nearbyQuests ORIGIN [quest1]) = [quest1]"
    by (simp add: quest1_nearby solvedIdsOf_def clientWith_def)
  have ne: "[quest1] \<noteq> []" by simp
  show ?thesis
    unfolding findMatchingQuest_candidates [OF q c f ne]
    by (simp add: quest1_def oracleSays_def CONFIDENCE_THRESHOLD_def)
qed

lemma findMatchingQuest_solved_example:
  "findMatchingQuest (oracleSays 90) (questStore (clientWith [''q1''] 150)) ''photo.jpg'' ORIGIN ''u1'' =
     Inr (noQuest ''Toate quest-urile din apropiere au fost completate'')"
  by (simp add: findMatchingQuest_def questStore_quests quest1_nearby getDoc_def
        solvedIdsOf_def Let_def)
     (simp add: questStore_def clientWith_def quest1_def)

text \<open>
  Two submissions one after the other: the second finds the quest solved and commits
  nothing. The guard is the one of candidate selection.
\<close>

lemma submitQuestImage_in_sequence:
  "submitQuestImage (oracleSays 90) (questStore (clientWith [] 0)) ''photo.jpg'' ORIGIN ''u1'' =
     Inr (\<lparr> success = True, sQuest = Some quest1,
            sResult = \<lparr> isMatch = True, confidence = 90, reasoning = ''same landmark'',
                        matchedQuestId = Some ''q1'' \<rparr>,
            sPointsEarned = Some 150 \<rparr>,
          questStore (clientWith [''q1''] 150))"
  "submitQuestImage (oracleSays 90) (questStore (clientWith [''q1''] 150)) ''photo.jpg'' ORIGIN ''u1'' =
     Inr (\<lparr> success = False, sQuest = None,
            sResult = \<lparr> isMatch = False, confidence = 0,
                        reasoning = ''Toate quest-urile din apropiere au fost completate'',
                        matchedQuestId = None \<rparr>,
            sPointsEarned = None \<rparr>,
          questStore (clientWith [''q1''] 150))"
proof -
  have s: "score quest1 = 150" "questId quest1 = ''q1''" by (simp_all add: quest1_def)
  show "submitQuestImage (oracleSays 90) (questStore (clientWith [] 0)) ''photo.jpg'' ORIGIN ''u1'' =
     Inr (\<lparr> success = True, sQuest = Some quest1,
            sResult = \<lparr> isMatch = True, confidence = 90, reasoning = ''same landmark'',
                        matchedQuestId = Some ''q1'' \<rparr>,
            sPointsEarned = Some 150 \<rparr>,
          questStore (clientWith [''q1''] 150))"
    by (simp add: submitQuestImage_def findMatchingQuest_unsolved_example Let_def s
          markQuestAsSolved_questStore)
  show "submitQuestImage (oracleSays 90) (questStore (clientWith [''q1''] 150)) ''photo.jpg'' ORIGIN ''u1'' =
     Inr (\<lparr> success = False, sQuest = None,
            sResult = \<lparr> isMatch = False, confidence = 0,
                        reasoning = ''Toate quest-urile din apropiere au fost completate'',
                        matchedQuestId = None \<rparr>,
            sPointsEarned = None \<rparr>,
          questStore (clientWith [''q1''] 150))"
    by (simp add: submitQuestImage_def findMatchingQuest_solved_example noQuest_def)
qed

text \<open>
  Claim C1, as amended. Committing the same quest id twice with \<open>markQuestAsSolved\<close>
  leaves the list of solved ids as the first commit left it, with the id in it, but
  increases \<open>accumulatedScore\<close> by the points on each of the two calls: the commit makes
  no membership check. The only check is at candidate selection: a quest that
  \<open>findMatchingQuest\<close> returns is not in the solved list of the client document it read.
\<close>

theorem markQuestAsSolved_increments_every_time:
  "(markQuestAsSolved db clientId qid pts = Inr db1 \<and>
    markQuestAsSolved db1 clientId qid pts = Inr db2 \<longrightarrow>
      (\<exists>d d1 d2. clients db clientId = Some d \<and> clients db1 clientId = Some d1 \<and>
         clients db2 clientId = Some d2 \<and>
         qid \<in> set (solvedIdsOf (Some d1)) \<and>
         imageQuestSolvedIds d2 = imageQuestSolvedIds d1 \<and>
         accumulatedScore d1 = Some (increment (accumulatedScore d) pts) \<and>
         accumulatedScore d2 = Some (increment (accumulatedScore d) pts + pts))) \<and>
   (findMatchingQuest compareImages db userImageUri userLocation clientId = Inr found \<and>
    mQuest found = Some quest \<longrightarrow>
      questId quest \<notin> set (solvedIdsOf (clients db clientId)))"
proof (intro conjI impI)
  assume a: "markQuestAsSolved db clientId qid pts = Inr db1 \<and>
             markQuestAsSolved db1 clientId qid pts = Inr db2"
  from a markQuestAsSolved_Inr [of db clientId qid pts db1] obtain d where
    d: "clients db clientId = Some d"
    and db1: "db1 = db\<lparr> clients := (clients db)(clientId \<mapsto>
                    d\<lparr> imageQuestSolvedIds := Some (arrayUnion (imageQuestSolvedIds d) [qid]),
                       accumulatedScore := Some (increment (accumulatedScore d) pts) \<rparr>) \<rparr>"
    by blast
  define d1 where "d1 = d\<lparr> imageQuestSolvedIds := Some (arrayUnion (imageQuestSolvedIds d) [qid]),
                       accumulatedScore := Some (increment (accumulatedScore d) pts) \<rparr>"
  have c1: "clients db1 clientId = Some d1" by (simp add: db1 d1_def)
  from a markQuestAsSolved_Inr [of db1 clientId qid pts db2] c1 have
    db2: "db2 = db1\<lparr> clients := (clients db1)(clientId \<mapsto>
                    d1\<lparr> imageQuestSolvedIds := Some (arrayUnion (imageQuestSolvedIds d1) [qid]),
                       accumulatedScore := Some (increment (accumulatedScore d1) pts) \<rparr>) \<rparr>"
    by auto
  define d2 where "d2 = d1\<lparr> imageQuestSolvedIds := Some (arrayUnion (imageQuestSolvedIds d1) [qid]),
                       accumulatedScore := Some (increment (accumulatedScore d1) pts) \<rparr>"
  have c2: "clients db2 clientId = Some d2" by (simp add: db2 d2_def)
  have "qid \<in> set (solvedIdsOf (Some d1))"
    by (simp add: solvedIdsOf_def d1_def arrayUnion_single_member)
  moreover have "imageQuestSolvedIds d2 = imageQuestSolvedIds d1"
    by (simp add: d2_def d1_def arrayUnion_single_idem)
  moreover have "accumulatedScore d1 = Some (increment (accumulatedScore d) pts)"
    by (simp add: d1_def)
  moreover have "accumulatedScore d2 = Some (increment (accumulatedScore d) pts + pts)"
    by (simp add: d2_def d1_def increment_def)
  ultimately show "\<exists>d d1 d2. clients db clientId = Some d \<and> clients db1 clientId = Some d1 \<and>
         clients db2 clientId = Some d2 \<and>
         qid \<in> set (solvedIdsOf (Some d1)) \<and>
         imageQuestSolvedIds d2 = imageQuestSolvedIds d1 \<and>
         accumulatedScore d1 = Some (increment (accumulatedScore d) pts) \<and>
         accumulatedScore d2 = Some (increment (accumulatedScore d) pts + pts)"
    using d c1 c2 by blast
next
  assume "findMatchingQuest compareImages db userImageUri userLocation clientId = Inr found \<and>
    mQuest found = Some quest"
  then show "questId quest \<notin> set (solvedIdsOf (clients db clientId))"
    using findMatchingQuest_selects_unsolved by blast
qed

text \<open>
  Claim C1 as stated fails: for a client with score 0 and quest \<open>q1\<close> worth 150, the
  second commit of \<open>q1\<close> raises the score from 150 to 300.
\<close>

theorem markQuestAsSolved_twice_doubles_score:
  "markQuestAsSolved (questStore (clientWith [] 0)) ''u1'' ''q1'' 150 =
     Inr (questStore (clientWith [''q1''] 150)) \<and>
   markQuestAsSolved (questStore (clientWith [''q1''] 150)) ''u1'' ''q1'' 150 =
     Inr (questStore (clientWith [''q1''] 300)) \<and>
   clients (questStore (clientWith [''q1''] 300)) ''u1'' =
     Some \<lparr> imageQuestSolvedIds = Some [''q1''], accumulatedScore = Some 300, mapGridIds = None \<rparr>"
  by (simp add: markQuestAsSolved_questStore) (simp add: questStore_def clientWith_def)

theorem markQuestAsSolved_increments_every_time_witness:
  "markQuestAsSolved (questStore (clientWith [] 0)) ''u1'' ''q1'' 150 =
     Inr (questStore (clientWith [''q1''] 150)) \<and>
   markQuestAsSolved (questStore (clientWith [''q1''] 150)) ''u1'' ''q1'' 150 =
     Inr (questStore (clientWith [''q1''] 300)) \<and>
   (\<exists>d d1 d2. clients (questStore (clientWith [] 0)) ''u1'' = Some d \<and>
      clients (questStore (clientWith [''q1''] 150)) ''u1'' = Some d1 \<and>
      clients (questStore (clientWith [''q1''] 300)) ''u1'' = Some d2 \<and>
      ''q1'' \<in> set (solvedIdsOf (Some d1)) \<and>
      imageQuestSolvedIds d2 = imageQuestSolvedIds d1 \<and>
      accumulatedScore d1 = Some (increment (accumulatedScore d) 150) \<and>
      accumulatedScore d2 = Some (increment (accumulatedScore d) 150 + 150)) \<and>
   mQuest \<lparr> mQuest = Some quest1,
           mComparisonResult = \<lparr> isMatch = True, confidence = 90, reasoning = ''same landmark'',
                                 matchedQuestId = Some ''q1'' \<rparr> \<rparr> = Some quest1 \<and>
   findMatchingQuest (oracleSays 90) (questStore (clientWith [] 0)) ''photo.jpg'' ORIGIN ''u1'' =
     Inr \<lparr> mQuest = Some quest1,
           mComparisonResult = \<lparr> isMatch = True, confidence = 90, reasoning = ''same landmark'',
                                 matchedQuestId = Some ''q1'' \<rparr> \<rparr> \<and>
   questId quest1 \<notin> set (solvedIdsOf (clients (questStore (clientWith [] 0)) ''u1'')) \<and>
   findMatchingQuest (oracleSays 90) (questStore (clientWith [''q1''] 150)) ''photo.jpg'' ORIGIN ''u1'' =
     Inr (noQuest ''Toate quest-urile din apropiere au fost completate'')"
proof -
  let ?db = "questStore (clientWith [] 0)"
  let ?found = "\<lparr> mQuest = Some quest1,
           mComparisonResult = \<lparr> isMatch = True, confidence = 90, reasoning = ''same landmark'',
                                 matchedQuestId = Some ''q1'' \<rparr> \<rparr>"
  have m1: "markQuestAsSolved ?db ''u1'' ''q1'' 150 = Inr (questStore (clientWith [''q1''] 150))"
    by (simp add: markQuestAsSolved_questStore)
  have m2: "markQuestAsSolved (questStore (clientWith [''q1''] 150)) ''u1'' ''q1'' 150 =
     Inr (questStore (clientWith [''q1''] 300))"
    by (simp add: markQuestAsSolved_questStore)
  have fm: "findMatchingQuest (oracleSays 90) ?db ''photo.jpg'' ORIGIN ''u1'' = Inr ?found"
    by (rule findMatchingQuest_unsolved_example)
  have mq: "mQuest ?found = Some quest1" by simp
  have solved: "findMatchingQuest (oracleSays 90) (questStore (clientWith [''q1''] 150))
      ''photo.jpg'' ORIGIN ''u1'' = Inr (noQuest ''Toate quest-urile din apropiere au fost completate'')"
    by (rule findMatchingQuest_solved_example)
  from markQuestAsSolved_increments_every_time
         [of ?db "''u1''" "''q1''" 150 "questStore (clientWith [''q1''] 150)"
             "questStore (clientWith [''q1''] 300)" "oracleSays 90" "''photo.jpg''" ORIGIN
             ?found quest1]
       m1 m2 fm mq
  show ?thesis using solved by blast
qed

end
